theory Spec2Isabelle
  imports Main
begin

section \<open>Strings and numbers of the host language\<close>

text \<open>
  The program is TypeScript. Its strings are modelled as \<^typ>\<open>string\<close> over the ASCII
  range (the tag names, branch names and commit messages the action reads), and its numbers
  as integers together with the value \<open>NaN\<close>: every number the program computes is an integer
  obtained by \<open>parseInt\<close> and by adding one, which the host language represents exactly
  below \<open>2 ^ 53\<close>.
\<close>

datatype number = NaN | Num int

definition isNaN :: "number \<Rightarrow> bool" where
  "isNaN x = (x = NaN)"

fun num_add :: "number \<Rightarrow> int \<Rightarrow> number" where
  "num_add NaN k = NaN"
| "num_add (Num n) k = Num (n + k)"

definition digit_chars :: string where
  "digit_chars = ''0123456789''"

definition nonzero_digit_chars :: string where
  "nonzero_digit_chars = ''123456789''"

definition lower_chars :: string where
  "lower_chars = ''abcdefghijklmnopqrstuvwxyz''"

definition upper_chars :: string where
  "upper_chars = ''ABCDEFGHIJKLMNOPQRSTUVWXYZ''"

definition whitespace_chars :: string where
  "whitespace_chars = [CHR 0x09, CHR 0x0A, CHR 0x0B, CHR 0x0C, CHR 0x0D, CHR '' '']"

definition is_digit :: "char \<Rightarrow> bool" where
  "is_digit c = (c \<in> set digit_chars)"

definition is_whitespace :: "char \<Rightarrow> bool" where
  "is_whitespace c = (c \<in> set whitespace_chars)"

text \<open>Value of a digit in radix 10 or 16, \<open>None\<close> when the character is not a digit there.\<close>

definition digit_value :: "nat \<Rightarrow> char \<Rightarrow> nat option" where
  "digit_value radix c =
     (let k = (of_char c :: nat) in
      if 48 \<le> k \<and> k \<le> 57 then Some (k - 48)
      else if radix = 16 \<and> 97 \<le> k \<and> k \<le> 102 then Some (k - 87)
      else if radix = 16 \<and> 65 \<le> k \<and> k \<le> 70 then Some (k - 55)
      else None)"

definition digits_value :: "nat \<Rightarrow> string \<Rightarrow> nat" where
  "digits_value radix ds = foldl (\<lambda>acc c. radix * acc + the (digit_value radix c)) 0 ds"

text \<open>
  \<open>parseInt(s)\<close> with no radix argument: leading white space is skipped, a sign is read,
  a \<open>0x\<close> prefix selects radix 16, and the longest run of digits is converted; when that
  run is empty the result is \<open>NaN\<close>. Characters after the run are ignored.
\<close>

definition parseInt :: "string \<Rightarrow> number" where
  "parseInt s =
     (let s1 = dropWhile is_whitespace s;
          neg = (case s1 of [] \<Rightarrow> False | c # r \<Rightarrow> c = CHR ''-'');
          s2 = (case s1 of [] \<Rightarrow> [] | c # r \<Rightarrow> if c = CHR ''-'' \<or> c = CHR ''+'' then r else s1);
          hex = (take 2 s2 = ''0x'' \<or> take 2 s2 = ''0X'');
          radix = (if hex then 16 else 10);
          s3 = (if hex then drop 2 s2 else s2);
          ds = takeWhile (\<lambda>c. digit_value radix c \<noteq> None) s3
      in if ds = [] then NaN
         else Num ((if neg then - 1 else 1) * int (digits_value radix ds)))"

function nat_toString :: "nat \<Rightarrow> string" where
  "nat_toString n =
     (if n < 10 then [digit_chars ! n]
      else nat_toString (n div 10) @ [digit_chars ! (n mod 10)])"
  by pat_completeness auto
termination
  by (relation "measure id") auto

declare nat_toString.simps [simp del]

fun number_toString :: "number \<Rightarrow> string" where
  "number_toString NaN = ''NaN''"
| "number_toString (Num i) =
     (if i < 0 then CHR ''-'' # nat_toString (nat (- i)) else nat_toString (nat i))"

text \<open>\<open>s.split(sep)\<close> for a one-character separator: never the empty list.\<close>

fun split :: "char \<Rightarrow> string \<Rightarrow> string list" where
  "split sep [] = [[]]"
| "split sep (c # cs) =
     (if c = sep then [] # split sep cs
      else (case split sep cs of [] \<Rightarrow> [[c]] | p # ps \<Rightarrow> (c # p) # ps))"

text \<open>\<open>xs.join(sep)\<close>.\<close>

fun join :: "string \<Rightarrow> string list \<Rightarrow> string" where
  "join sep [] = []"
| "join sep [x] = x"
| "join sep (x # y # ys) = x @ sep @ join sep (y # ys)"

fun startsWith :: "string \<Rightarrow> string \<Rightarrow> bool" where
  "startsWith s [] = True"
| "startsWith [] (p # ps) = False"
| "startsWith (c # cs) (p # ps) = (c = p \<and> startsWith cs ps)"

text \<open>\<open>s.indexOf(p)\<close>: position of the first occurrence, \<open>None\<close> for \<open>-1\<close>.\<close>

fun indexOf :: "string \<Rightarrow> string \<Rightarrow> nat option" where
  "indexOf [] p = (if p = [] then Some 0 else None)"
| "indexOf (c # cs) p =
     (if startsWith (c # cs) p then Some 0
      else map_option Suc (indexOf cs p))"

definition includes_str :: "string \<Rightarrow> string \<Rightarrow> bool" where
  "includes_str s p = (indexOf s p \<noteq> None)"

text \<open>\<open>s.trimEnd()\<close>.\<close>

definition trimEnd :: "string \<Rightarrow> string" where
  "trimEnd s = rev (dropWhile is_whitespace (rev s))"

text \<open>
  The replacement text of \<open>s.replace(pattern, replacement)\<close> for a string pattern: \<open>$$\<close>
  stands for a dollar sign, \<open>$&\<close> for the matched text, \<open>$`\<close> and \<open>$'\<close> for the text before
  and after it; there are no groups, so every other character stands for itself.
\<close>

fun getSubstitution :: "string \<Rightarrow> string \<Rightarrow> string \<Rightarrow> string \<Rightarrow> string" where
  "getSubstitution matched preceding following [] = []"
| "getSubstitution matched preceding following [c] = [c]"
| "getSubstitution matched preceding following (c # d # r) =
     (if c = CHR ''$'' \<and> d = CHR ''$'' then CHR ''$'' # getSubstitution matched preceding following r
      else if c = CHR ''$'' \<and> d = CHR ''&'' then matched @ getSubstitution matched preceding following r
      else if c = CHR ''$'' \<and> d = CHR 0x60 then preceding @ getSubstitution matched preceding following r
      else if c = CHR ''$'' \<and> d = CHR 0x27 then following @ getSubstitution matched preceding following r
      else c # getSubstitution matched preceding following (d # r))"

text \<open>\<open>s.replace(pattern, replacement)\<close> with a string pattern: the first occurrence only.\<close>

definition replace :: "string \<Rightarrow> string \<Rightarrow> string \<Rightarrow> string" where
  "replace s pattern replacement =
     (case indexOf s pattern of
        None \<Rightarrow> s
      | Some i \<Rightarrow>
          take i s
          @ getSubstitution pattern (take i s) (drop (i + length pattern) s) replacement
          @ drop (i + length pattern) s)"

section \<open>Regular expressions\<close>

text \<open>
  The two patterns of \<open>constants.ts\<close> are kept as syntax trees and run by a backtracking
  matcher that returns, in the order the host's matcher tries them, every way a pattern can
  match a prefix of the input: the rest of the input and the groups captured. Choices are
  greedy (an iteration is tried before leaving the loop, the left alternative before the
  right one), a loop clears the groups inside its body before each iteration, and an iteration
  of an optional part or of a loop that consumes nothing is refused.
\<close>

datatype rx =
    Chr char
  | Cls "char \<Rightarrow> bool"
  | Seq rx rx
  | Alt rx rx
  | Opt rx
  | Star rx
  | Plus rx
  | Grp nat rx

type_synonym captures = "(nat \<times> string) list"

fun groups :: "rx \<Rightarrow> nat list" where
  "groups (Chr c) = []"
| "groups (Cls p) = []"
| "groups (Seq a b) = groups a @ groups b"
| "groups (Alt a b) = groups a @ groups b"
| "groups (Opt a) = groups a"
| "groups (Star a) = groups a"
| "groups (Plus a) = groups a"
| "groups (Grp n a) = n # groups a"

definition reset :: "nat list \<Rightarrow> captures \<Rightarrow> captures" where
  "reset ns cs = filter (\<lambda>(k, w). k \<notin> set ns) cs"

definition capture :: "nat \<Rightarrow> string \<Rightarrow> captures \<Rightarrow> captures" where
  "capture n w cs = (n, w) # filter (\<lambda>(k, w). k \<noteq> n) cs"

fun weight :: "rx \<Rightarrow> nat" where
  "weight (Chr c) = 1"
| "weight (Cls p) = 1"
| "weight (Seq a b) = Suc (weight a + weight b)"
| "weight (Alt a b) = Suc (weight a + weight b)"
| "weight (Opt a) = Suc (weight a)"
| "weight (Star a) = Suc (weight a)"
| "weight (Plus a) = Suc (Suc (weight a))"
| "weight (Grp n a) = Suc (weight a)"

function matches :: "rx \<Rightarrow> string \<Rightarrow> captures \<Rightarrow> (string \<times> captures) list" where
  "matches (Chr c) s cs = (case s of [] \<Rightarrow> [] | x # xs \<Rightarrow> if x = c then [(xs, cs)] else [])"
| "matches (Cls p) s cs = (case s of [] \<Rightarrow> [] | x # xs \<Rightarrow> if p x then [(xs, cs)] else [])"
| "matches (Seq a b) s cs = concat (map (\<lambda>(s1, c1). matches b s1 c1) (matches a s cs))"
| "matches (Alt a b) s cs = matches a s cs @ matches b s cs"
| "matches (Opt a) s cs =
     filter (\<lambda>(s1, c1). length s1 < length s) (matches a s (reset (groups a) cs)) @ [(s, cs)]"
| "matches (Star a) s cs =
     concat (map (\<lambda>(s1, c1). matches (Star a) s1 c1)
       (filter (\<lambda>(s1, c1). length s1 < length s) (matches a s (reset (groups a) cs))))
     @ [(s, cs)]"
| "matches (Plus a) s cs =
     concat (map (\<lambda>(s1, c1). matches (Star a) s1 c1) (matches a s (reset (groups a) cs)))"
| "matches (Grp n a) s cs =
     map (\<lambda>(s1, c1). (s1, capture n (take (length s - length s1) s) c1)) (matches a s cs)"
  by pat_completeness auto
termination
  by (relation "measures [\<lambda>(r, s, cs). weight r, \<lambda>(r, s, cs). length s]") auto

text \<open>
  \<open>s.match(r)\<close> for a pattern written \<open>^...$\<close> without flags: the first way of matching that
  reaches the end of the input, or \<open>null\<close>.
\<close>

definition match :: "string \<Rightarrow> rx \<Rightarrow> captures option" where
  "match s r =
     (case filter (\<lambda>(rest, cs). rest = []) (matches r s []) of
        [] \<Rightarrow> None
      | (rest, cs) # more \<Rightarrow> Some cs)"

text \<open>\<open>m[n]\<close>: \<open>None\<close> is \<open>undefined\<close>.\<close>

definition grp :: "captures \<Rightarrow> nat \<Rightarrow> string option" where
  "grp m n = map_of m n"

text \<open>A string or \<open>undefined\<close> in a condition: true when it is a non-empty string.\<close>

fun truthy :: "string option \<Rightarrow> bool" where
  "truthy None = False"
| "truthy (Some w) = (w \<noteq> [])"

fun seqs :: "rx list \<Rightarrow> rx" where
  "seqs [] = undefined"
| "seqs [r] = r"
| "seqs (r # rs) = Seq r (seqs rs)"

fun alts :: "rx list \<Rightarrow> rx" where
  "alts [] = undefined"
| "alts [r] = r"
| "alts (r # rs) = Alt r (alts rs)"

definition lit :: "string \<Rightarrow> rx" where
  "lit w = seqs (map Chr w)"

section \<open>constants.ts\<close>

datatype RELEASE_TYPES = MAJOR | MINOR | PATCH | NONE

text \<open>The character classes \<open>\w\<close> with \<open>-\<close>, \<open>[^\r\n]\<close>, \<open>\s\<close>, \<open>[1-9]\<close>, \<open>\d\<close>, \<open>[a-zA-Z-]\<close>
  and \<open>[0-9a-zA-Z-]\<close>.\<close>

definition word_or_dash :: "char \<Rightarrow> bool" where
  "word_or_dash c = (c \<in> set (lower_chars @ upper_chars @ digit_chars @ ''_-''))"

definition not_crlf :: "char \<Rightarrow> bool" where
  "not_crlf c = (c \<noteq> CHR 0x0D \<and> c \<noteq> CHR 0x0A)"

definition nonzero_digit :: "char \<Rightarrow> bool" where
  "nonzero_digit c = (c \<in> set nonzero_digit_chars)"

definition letter_or_dash :: "char \<Rightarrow> bool" where
  "letter_or_dash c = (c \<in> set (lower_chars @ upper_chars @ ''-''))"

definition alnum_or_dash :: "char \<Rightarrow> bool" where
  "alnum_or_dash c = (c \<in> set (digit_chars @ lower_chars @ upper_chars @ ''-''))"

text \<open>
  \<^verbatim>\<open>/^(build|chore|ci|docs|feat|fix|perf|refactor|revert|style|test)(\([\w\-]+\))?(!)?: [^\r\n]+((\s)((\s)[^\r\n]+)+)*(\s)?$/\<close>
  with the part after the colon and the blank, \<^verbatim>\<open>[^\r\n]+((\s)((\s)[^\r\n]+)+)*(\s)?\<close>, named
  \<open>commit_body_rx\<close>.
\<close>

definition commit_body_rx :: rx where
  "commit_body_rx =
     seqs [Plus (Cls not_crlf),
           Star (Grp 4 (seqs [Grp 5 (Cls is_whitespace),
                              Plus (Grp 6 (seqs [Grp 7 (Cls is_whitespace), Plus (Cls not_crlf)]))])),
           Opt (Grp 8 (Cls is_whitespace))]"

definition CONVENTIONAL_COMMIT_REGEX :: rx where
  "CONVENTIONAL_COMMIT_REGEX =
     seqs [
       Grp 1 (alts [lit ''build'', lit ''chore'', lit ''ci'', lit ''docs'', lit ''feat'',
                    lit ''fix'', lit ''perf'', lit ''refactor'', lit ''revert'', lit ''style'',
                    lit ''test'']),
       Opt (Grp 2 (seqs [Chr CHR ''('', Plus (Cls word_or_dash), Chr CHR '')''])),
       Opt (Grp 3 (Chr CHR ''!'')),
       Chr CHR '':'',
       Chr CHR '' '',
       commit_body_rx]"

text \<open>
  \<^verbatim>\<open>/^v?(0|[1-9]\d*)\.(0|[1-9]\d*)\.(0|[1-9]\d*)(?:-((?:0|[1-9]\d*|\d*[a-zA-Z-][0-9a-zA-Z-]*)(?:\.(?:0|[1-9]\d*|\d*[a-zA-Z-][0-9a-zA-Z-]*))*))?(?:\+([0-9a-zA-Z-]+(?:\.[0-9a-zA-Z-]+)*))?$/\<close>
\<close>

definition numeric_rx :: rx where
  "numeric_rx = Alt (Chr CHR ''0'') (Seq (Cls nonzero_digit) (Star (Cls is_digit)))"

definition prerelease_id_rx :: rx where
  "prerelease_id_rx =
     alts [Chr CHR ''0'',
           Seq (Cls nonzero_digit) (Star (Cls is_digit)),
           seqs [Star (Cls is_digit), Cls letter_or_dash, Star (Cls alnum_or_dash)]]"

definition prerelease_rx :: rx where
  "prerelease_rx = Seq prerelease_id_rx (Star (Seq (Chr CHR ''.'') prerelease_id_rx))"

definition build_rx :: rx where
  "build_rx = Seq (Plus (Cls alnum_or_dash)) (Star (Seq (Chr CHR ''.'') (Plus (Cls alnum_or_dash))))"

definition SEMANTIC_VERSION_REGEX :: rx where
  "SEMANTIC_VERSION_REGEX =
     seqs [
       Opt (Chr CHR ''v''),
       Grp 1 numeric_rx,
       Chr CHR ''.'',
       Grp 2 numeric_rx,
       Chr CHR ''.'',
       Grp 3 numeric_rx,
       Opt (Seq (Chr CHR ''-'') (Grp 4 prerelease_rx)),
       Opt (Seq (Chr CHR ''+'') (Grp 5 build_rx))]"

section \<open>semantic-version.ts and utils.ts\<close>

datatype error =
    InvalidSemanticVersion string
  | TypeError
  | GitError
  | NotSupportedAction string
  | NotAReleaseBranch string
  | NoTagsAtHEAD
  | NoReleaseCandidateAtHEAD
  | MultipleReleaseCandidatesAtHEAD string
  | ReleaseTagsAtHEAD string
  | NotTrunkOrReleaseBranch string string
  | NoCommitsSinceTag string
  | NoCommitsInRepository
  | NoValidChanges string
  | PatchFromTrunk string
  | MinorOffTrunk string
  | MajorOffTrunk string
  | BranchAlreadyExists string
  | PublishFailed

record SemanticVersion =
  major :: number
  minor :: number
  patch :: number
  prerelease :: "string option"

text \<open>The constructor: \<open>new SemanticVersion(version)\<close>, which throws on a string the pattern
  refuses.\<close>

definition new_SemanticVersion :: "string \<Rightarrow> error + SemanticVersion" where
  "new_SemanticVersion version =
     (case match version SEMANTIC_VERSION_REGEX of
        None \<Rightarrow> Inl (InvalidSemanticVersion version)
      | Some m \<Rightarrow>
          Inr \<lparr> major = parseInt (case grp m 1 of None \<Rightarrow> ''undefined'' | Some w \<Rightarrow> w),
                minor = parseInt (case grp m 2 of None \<Rightarrow> ''undefined'' | Some w \<Rightarrow> w),
                patch = parseInt (case grp m 3 of None \<Rightarrow> ''undefined'' | Some w \<Rightarrow> w),
                prerelease = (if truthy (grp m 4) then grp m 4 else None) \<rparr>)"

definition bumpMajor :: "SemanticVersion \<Rightarrow> SemanticVersion" where
  "bumpMajor v = v \<lparr> major := num_add (major v) 1, minor := Num 0, patch := Num 0,
                     prerelease := Some ''rc.1'' \<rparr>"

definition bumpMinor :: "SemanticVersion \<Rightarrow> SemanticVersion" where
  "bumpMinor v = v \<lparr> minor := num_add (minor v) 1, patch := Num 0, prerelease := Some ''rc.1'' \<rparr>"

definition bumpPatch :: "SemanticVersion \<Rightarrow> SemanticVersion" where
  "bumpPatch v =
     (if \<not> truthy (prerelease v) then
        v \<lparr> patch := num_add (patch v) 1, prerelease := Some ''rc.1'' \<rparr>
      else
        let pre = the (prerelease v);
            parts = split CHR ''.'' pre;
            lastPart = parts ! (length parts - 1);
            rcNumber = parseInt lastPart
        in if \<not> isNaN rcNumber then
             v \<lparr> prerelease :=
                   Some (join ''.'' (parts [length parts - 1 := number_toString (num_add rcNumber 1)])) \<rparr>
           else
             v \<lparr> prerelease := Some (pre @ ''.1'') \<rparr>)"

definition makeRelease :: "SemanticVersion \<Rightarrow> SemanticVersion" where
  "makeRelease v = v \<lparr> prerelease := None \<rparr>"

definition isPrerelease :: "SemanticVersion \<Rightarrow> bool" where
  "isPrerelease v = (prerelease v \<noteq> None)"

definition toString :: "SemanticVersion \<Rightarrow> string" where
  "toString v =
     ''v'' @ number_toString (major v) @ ''.'' @ number_toString (minor v) @ ''.''
     @ number_toString (patch v)
     @ (case prerelease v of None \<Rightarrow> '''' | Some p \<Rightarrow> ''-'' @ p)"

text \<open>\<open>parseReleaseTypeFromCommitMessage\<close>; the warning it logs for a message the pattern
  refuses is not part of the result.\<close>

definition parseReleaseTypeFromCommitMessage :: "string \<Rightarrow> RELEASE_TYPES" where
  "parseReleaseTypeFromCommitMessage message =
     (case match message CONVENTIONAL_COMMIT_REGEX of
        None \<Rightarrow> NONE
      | Some m \<Rightarrow>
          let releaseType = (if grp m 1 = Some ''feat'' then MINOR
                             else if grp m 1 = Some ''fix'' then PATCH
                             else NONE);
              releaseType = (if truthy (grp m 3) then MAJOR else releaseType)
          in if truthy (grp m 4)
                \<and> includes_str (the (grp m 4)) (CHR 0x0A # ''BREAKING CHANGE: '')
             then MAJOR
             else releaseType)"

text \<open>\<open>releaseTypeFromCommitMessages\<close>: the loop with its running \<open>bumpType\<close>; \<open>break\<close>
  leaves the loop at the first major message.\<close>

fun releaseType_loop :: "RELEASE_TYPES \<Rightarrow> string list \<Rightarrow> RELEASE_TYPES" where
  "releaseType_loop bumpType [] = bumpType"
| "releaseType_loop bumpType (message # rest) =
     (let releaseType = parseReleaseTypeFromCommitMessage message
      in if releaseType = MAJOR then MAJOR
         else if releaseType = MINOR \<and> bumpType \<noteq> MAJOR then releaseType_loop MINOR rest
         else if releaseType = PATCH \<and> bumpType \<noteq> MAJOR \<and> bumpType \<noteq> MINOR
              then releaseType_loop PATCH rest
         else releaseType_loop bumpType rest)"

definition releaseTypeFromCommitMessages :: "string list \<Rightarrow> RELEASE_TYPES" where
  "releaseTypeFromCommitMessages commitMessages = releaseType_loop NONE commitMessages"

definition generateReleaseBranchName :: "string \<Rightarrow> SemanticVersion \<Rightarrow> string" where
  "generateReleaseBranchName template version =
     replace
       (replace
         (replace
           (replace template ''${major}'' (number_toString (major version)))
           ''${minor}'' (number_toString (minor version)))
         ''${patch}'' (number_toString (patch version)))
       ''${prerelease}'' (if truthy (prerelease version) then the (prerelease version) else '''')"

section \<open>The repository behind \<open>simple-git\<close>\<close>

text \<open>
  The versioned store is outside the program; the part of it the action reads and writes is
  modelled as a state. Commits are listed oldest first, each with the hashes of its parents
  (which are older commits) and its message; a tag or a branch binds a name to a commit; HEAD
  is on a branch or detached at a commit, then with the label the store shows for it. How
  the store orders tag names is left open: \<open>versionsort\<close> stands for the collation of
  \<open>--sort=v:refname\<close> under \<open>versionsort.suffix=-\<close>, \<open>listing\<close> for the order of a listing
  without \<open>--sort\<close>. \<open>remote_ok\<close> says whether a push is accepted.
\<close>

type_synonym hash = string

record commit =
  hash :: hash
  parents :: "hash list"
  body :: string

datatype head = OnBranch string | Detached hash string

record git =
  commits :: "commit list"
  tags :: "(string \<times> hash) list"
  branches :: "(string \<times> hash) list"
  HEAD :: head
  versionsort :: "string \<Rightarrow> string \<Rightarrow> bool"
  listing :: "string \<Rightarrow> string \<Rightarrow> bool"
  remote_ok :: bool

fun insert_by :: "('a \<Rightarrow> 'a \<Rightarrow> bool) \<Rightarrow> 'a \<Rightarrow> 'a list \<Rightarrow> 'a list" where
  "insert_by le x [] = [x]"
| "insert_by le x (y # ys) = (if le x y then x # y # ys else y # insert_by le x ys)"

definition sort_by :: "('a \<Rightarrow> 'a \<Rightarrow> bool) \<Rightarrow> 'a list \<Rightarrow> 'a list" where
  "sort_by le xs = foldr (insert_by le) xs []"

text \<open>The commits reachable from a set of commits, walking the history from the newest commit
  to the oldest.\<close>

fun reach :: "commit list \<Rightarrow> hash list \<Rightarrow> hash list" where
  "reach [] acc = acc"
| "reach (c # cs) acc =
     (if hash c \<in> set acc then reach cs (parents c @ acc) else reach cs acc)"

definition reachable :: "git \<Rightarrow> hash \<Rightarrow> hash list" where
  "reachable g h = reach (rev (commits g)) [h]"

definition head_commit :: "git \<Rightarrow> hash option" where
  "head_commit g =
     (case HEAD g of OnBranch b \<Rightarrow> map_of (branches g) b | Detached h label \<Rightarrow> Some h)"

text \<open>Resolving a revision: \<open>HEAD\<close>, a tag, a branch, or the hash of a commit.\<close>

definition rev_parse :: "git \<Rightarrow> string \<Rightarrow> hash option" where
  "rev_parse g ref =
     (if ref = ''HEAD'' then head_commit g
      else case map_of (tags g) ref of
             Some h \<Rightarrow> Some h
           | None \<Rightarrow>
               (case map_of (branches g) ref of
                  Some h \<Rightarrow> Some h
                | None \<Rightarrow> if ref \<in> set (map hash (commits g)) then Some ref else None))"

text \<open>\<open>git.tags({'--merged': ref, '--sort': 'v:refname'})\<close>.\<close>

definition tags_merged :: "git \<Rightarrow> string \<Rightarrow> error + string list" where
  "tags_merged g ref =
     (case rev_parse g ref of
        None \<Rightarrow> Inl GitError
      | Some h \<Rightarrow>
          Inr (sort_by (versionsort g)
                 (map fst (filter (\<lambda>(name, c). c \<in> set (reachable g h)) (tags g)))))"

text \<open>\<open>git.tags({'--sort': 'v:refname'})\<close>.\<close>

definition tags_sorted :: "git \<Rightarrow> string list" where
  "tags_sorted g = sort_by (versionsort g) (map fst (tags g))"

text \<open>\<open>git.tags({'--points-at': 'HEAD'})\<close>.\<close>

definition tags_points_at_HEAD :: "git \<Rightarrow> error + string list" where
  "tags_points_at_HEAD g =
     (case head_commit g of
        None \<Rightarrow> Inl GitError
      | Some h \<Rightarrow> Inr (sort_by (listing g) (map fst (filter (\<lambda>(name, c). c = h) (tags g)))))"

text \<open>\<open>git.log({from, to, multiLine: true})\<close>: the library asks for the range \<open>from...to\<close>,
  the commits reachable from one end and not from the other, newest first; when \<open>from\<close> is an
  ancestor of \<open>to\<close> these are the commits after \<open>from\<close> up to \<open>to\<close>.\<close>

definition git_log :: "git \<Rightarrow> string \<Rightarrow> string \<Rightarrow> error + commit list" where
  "git_log g from to =
     (case (rev_parse g from, rev_parse g to) of
        (Some f, Some t) \<Rightarrow>
          Inr (filter (\<lambda>c. (hash c \<in> set (reachable g t)) \<noteq> (hash c \<in> set (reachable g f)))
                 (rev (commits g)))
      | _ \<Rightarrow> Inl GitError)"

text \<open>\<open>git.firstCommit()\<close>: the output of \<open>rev-list --max-parents=0 HEAD\<close>, one line for
  each root of HEAD's history.\<close>

definition git_firstCommit :: "git \<Rightarrow> error + string" where
  "git_firstCommit g =
     (case head_commit g of
        None \<Rightarrow> Inl GitError
      | Some h \<Rightarrow>
          Inr (join [CHR 0x0A]
                 (map hash (filter (\<lambda>c. hash c \<in> set (reachable g h) \<and> parents c = [])
                              (rev (commits g))))))"

text \<open>\<open>git.tag([name])\<close>: a new tag on the commit of HEAD; refused when the name is taken.\<close>

definition git_tag :: "git \<Rightarrow> string \<Rightarrow> (error + unit) \<times> git" where
  "git_tag g name =
     (case head_commit g of
        None \<Rightarrow> (Inl GitError, g)
      | Some h \<Rightarrow>
          if name \<in> set (map fst (tags g)) then (Inl GitError, g)
          else (Inr (), g \<lparr> tags := tags g @ [(name, h)] \<rparr>))"

text \<open>\<open>git.checkout(ref)\<close>: onto the branch of that name when there is one, otherwise HEAD is
  detached at the commit the revision names.\<close>

definition git_checkout :: "git \<Rightarrow> string \<Rightarrow> (error + unit) \<times> git" where
  "git_checkout g ref =
     (if ref \<in> set (map fst (branches g)) then (Inr (), g \<lparr> HEAD := OnBranch ref \<rparr>)
      else case rev_parse g ref of
             None \<Rightarrow> (Inl GitError, g)
           | Some h \<Rightarrow> (Inr (), g \<lparr> HEAD := Detached h ref \<rparr>))"

text \<open>\<open>git.checkoutBranch(name, ref)\<close>: a new branch at the revision, made current.\<close>

definition git_checkoutBranch :: "git \<Rightarrow> string \<Rightarrow> string \<Rightarrow> (error + unit) \<times> git" where
  "git_checkoutBranch g name ref =
     (if name \<in> set (map fst (branches g)) then (Inl GitError, g)
      else case rev_parse g ref of
             None \<Rightarrow> (Inl GitError, g)
           | Some h \<Rightarrow> (Inr (), g \<lparr> branches := branches g @ [(name, h)], HEAD := OnBranch name \<rparr>))"

text \<open>\<open>(await git.branch()).all\<close> and \<open>.current\<close>.\<close>

definition branch_all :: "git \<Rightarrow> string list" where
  "branch_all g =
     (case HEAD g of OnBranch b \<Rightarrow> [] | Detached h label \<Rightarrow> [label]) @ map fst (branches g)"

definition branch_current :: "git \<Rightarrow> string" where
  "branch_current g = (case HEAD g of OnBranch b \<Rightarrow> b | Detached h label \<Rightarrow> label)"

section \<open>git.ts\<close>

definition getTags :: "git \<Rightarrow> string \<Rightarrow> error + string list" where
  "getTags g ref = tags_merged g ref"

definition getLatestTag :: "git \<Rightarrow> string \<Rightarrow> error + string" where
  "getLatestTag g ref =
     (case tags_merged g ref of
        Inl e \<Rightarrow> Inl e
      | Inr tagNames \<Rightarrow>
          Inr (if length tagNames > 0 then tagNames ! (length tagNames - 1) else ''''))"

text \<open>A tag that the constructor accepts and that is not a prerelease, as the filter of
  \<open>getLatestStableTag\<close> and the count \<open>numReleasesAtHEAD\<close> of \<open>run\<close> decide it.\<close>

definition is_stable_tag :: "string \<Rightarrow> bool" where
  "is_stable_tag tag =
     (case new_SemanticVersion tag of Inl e \<Rightarrow> False | Inr v \<Rightarrow> \<not> isPrerelease v)"

text \<open>\<open>getLatestStableTag(git)\<close> takes the store only: the second argument its callers pass
  is not a parameter of the function, and the tags it lists are those of the whole store.\<close>

definition getLatestStableTag :: "git \<Rightarrow> string" where
  "getLatestStableTag g =
     (let tagNames = filter is_stable_tag (tags_sorted g)
      in if length tagNames > 0 then tagNames ! (length tagNames - 1) else '''')"

definition getTagsAtHEAD :: "git \<Rightarrow> error + string list" where
  "getTagsAtHEAD g = tags_points_at_HEAD g"

definition getCurrentBranch :: "git \<Rightarrow> string" where
  "getCurrentBranch g = branch_current g"

definition getCommitMessages :: "git \<Rightarrow> string \<Rightarrow> string \<Rightarrow> error + string list" where
  "getCommitMessages g from to =
     (case git_log g from to of
        Inl e \<Rightarrow> Inl e
      | Inr messages \<Rightarrow> Inr (map (\<lambda>commit. trimEnd (body commit)) messages))"

text \<open>\<open>makeRelease(git, targetTag, releaseTag)\<close> of \<open>git.ts\<close>.\<close>

definition makeRelease_git :: "git \<Rightarrow> string \<Rightarrow> string \<Rightarrow> (error + unit) \<times> git" where
  "makeRelease_git g targetTag releaseTag =
     (case git_checkout g targetTag of
        (Inl e, g1) \<Rightarrow> (Inl e, g1)
      | (Inr u, g1) \<Rightarrow> git_tag g1 releaseTag)"

text \<open>\<open>cutReleaseBranch(git, ref, releaseBranchName, tag)\<close> of \<open>git.ts\<close>.\<close>

definition cutReleaseBranch :: "git \<Rightarrow> string \<Rightarrow> string \<Rightarrow> string \<Rightarrow> (error + unit) \<times> git" where
  "cutReleaseBranch g ref releaseBranchName tagName =
     (if releaseBranchName \<in> set (branch_all g) then (Inl (BranchAlreadyExists releaseBranchName), g)
      else case git_checkoutBranch g releaseBranchName ref of
             (Inl e, g1) \<Rightarrow> (Inl e, g1)
           | (Inr u, g1) \<Rightarrow> git_tag g1 tagName)"

text \<open>
  Modelled from the spec: \<open>cutReleaseFromTrunk\<close>, which \<open>run\<close> imports from \<open>git.ts\<close> and
  which is not among the sources. The spec (release-cut, step 6): ``fail ConflictError if that
  branch name already exists; create it from current HEAD, tag that same commit with the
  rendered rc tag, and make it the active branch''.
\<close>

definition cutReleaseFromTrunk :: "git \<Rightarrow> string \<Rightarrow> string \<Rightarrow> string \<Rightarrow> (error + unit) \<times> git" where
  "cutReleaseFromTrunk g ref releaseBranchName tagName =
     (if releaseBranchName \<in> set (branch_all g) then (Inl (BranchAlreadyExists releaseBranchName), g)
      else case git_checkoutBranch g releaseBranchName ''HEAD'' of
             (Inl e, g1) \<Rightarrow> (Inl e, g1)
           | (Inr u, g1) \<Rightarrow> git_tag g1 tagName)"

text \<open>
  Modelled from the spec: \<open>cutReleaseFromReleaseBranch\<close>, likewise imported and not among the
  sources. The spec: ``tag current HEAD in place with the rendered rc tag; no branch created''.
\<close>

definition cutReleaseFromReleaseBranch :: "git \<Rightarrow> string \<Rightarrow> string \<Rightarrow> (error + unit) \<times> git" where
  "cutReleaseFromReleaseBranch g ref tagName = git_tag g tagName"

text \<open>\<open>gitSync\<close>: both pushes go to the remote; the local store is as before.\<close>

definition gitSync :: "git \<Rightarrow> (error + unit) \<times> git" where
  "gitSync g = (if remote_ok g then (Inr (), g) else (Inl PublishFailed, g))"

definition isReleaseBranch :: "string \<Rightarrow> (string \<Rightarrow> bool) \<Rightarrow> bool" where
  "isReleaseBranch branchName releaseBranchRegex = releaseBranchRegex branchName"

section \<open>main.ts\<close>

text \<open>
  The \<open>main.ts\<close> that the integration tests run, with \<open>cutReleaseFromTrunk\<close> and
  \<open>cutReleaseFromReleaseBranch\<close>. The inputs of the action. The release-branch pattern is a regular expression of the user's;
  it enters as the predicate ``the pattern matches this name''.
\<close>

record inputs =
  action :: string
  trunkBranchName :: string
  releaseBranchRegex :: "string \<Rightarrow> bool"
  releaseBranchStringTemplate :: string
  dryRun :: bool

record outputs =
  next_version :: string
  previous_version :: string
  previous_stable_version :: string

text \<open>
  The outputs \<open>next-version\<close>, \<open>previous-version\<close> and \<open>previous-stable-version\<close>.
  \<open>run\<close> returns the outputs it sets, or the error it throws, together with the store as the
  run leaves it. The end of both actions: the push unless \<open>dry-run\<close>, then the outputs.
\<close>

definition publish :: "inputs \<Rightarrow> git \<Rightarrow> outputs \<Rightarrow> (error + outputs) \<times> git" where
  "publish cfg g out =
     (if \<not> dryRun cfg then
        (case gitSync g of (Inl e, g1) \<Rightarrow> (Inl e, g1) | (Inr u, g1) \<Rightarrow> (Inr out, g1))
      else (Inr out, g))"

definition is_candidate_tag :: "string \<Rightarrow> bool" where
  "is_candidate_tag tag =
     (case new_SemanticVersion tag of Inl e \<Rightarrow> False | Inr v \<Rightarrow> isPrerelease v)"

definition run_release :: "inputs \<Rightarrow> git \<Rightarrow> string \<Rightarrow> (error + outputs) \<times> git" where
  "run_release cfg g currentBranch =
     (if \<not> isReleaseBranch currentBranch (releaseBranchRegex cfg)
      then (Inl (NotAReleaseBranch currentBranch), g)
      else case getTagsAtHEAD g of
        Inl e \<Rightarrow> (Inl e, g)
      | Inr tagsAtHEAD \<Rightarrow>
          if length tagsAtHEAD = 0 then (Inl NoTagsAtHEAD, g)
          else
            let numReleaseCandidatesAtHEAD = length (filter id (map is_candidate_tag tagsAtHEAD))
            in if numReleaseCandidatesAtHEAD = 0 then (Inl NoReleaseCandidateAtHEAD, g)
               else if numReleaseCandidatesAtHEAD > 1
               then (Inl (MultipleReleaseCandidatesAtHEAD (join '', '' tagsAtHEAD)), g)
               else
                 let numReleasesAtHEAD = length (filter id (map is_stable_tag tagsAtHEAD))
                 in if numReleasesAtHEAD > 0
                    then (Inl (ReleaseTagsAtHEAD (join '', '' tagsAtHEAD)), g)
                    else
                      (case filter is_candidate_tag tagsAtHEAD of
                         [] \<Rightarrow> (Inl TypeError, g)
                       | targetTag0 # others \<Rightarrow>
                           (case new_SemanticVersion targetTag0 of
                              Inl e \<Rightarrow> (Inl e, g)
                            | Inr version \<Rightarrow>
                                let previousVersion = toString version;
                                    previousStableVersion = getLatestStableTag g;
                                    version = makeRelease version
                                in (case makeRelease_git g targetTag0 (toString version) of
                                      (Inl e, g1) \<Rightarrow> (Inl e, g1)
                                    | (Inr u, g1) \<Rightarrow>
                                        publish cfg g1
                                          \<lparr> next_version = toString version,
                                            previous_version = previousVersion,
                                            previous_stable_version = previousStableVersion \<rparr>))))"

text \<open>The reference point of a release cut (the \<open>if (latestTag)\<close> of \<open>run\<close>): the latest tag,
  the version to bump, the commit messages since, and \<open>previousVersion\<close>.\<close>

definition cut_reference ::
  "git \<Rightarrow> string \<Rightarrow> error + (string \<times> SemanticVersion \<times> string list \<times> string)" where
  "cut_reference g currentBranch =
     (case getLatestTag g currentBranch of
        Inl e \<Rightarrow> Inl e
      | Inr latestTag \<Rightarrow>
          if latestTag \<noteq> '''' then
            (case new_SemanticVersion latestTag of
               Inl e \<Rightarrow> Inl e
             | Inr version \<Rightarrow>
                 (case getCommitMessages g latestTag ''HEAD'' of
                    Inl e \<Rightarrow> Inl e
                  | Inr commitMessages \<Rightarrow>
                      if length commitMessages = 0 then Inl (NoCommitsSinceTag latestTag)
                      else Inr (latestTag, version, commitMessages, toString version)))
          else
            (case new_SemanticVersion ''0.0.0'' of
               Inl e \<Rightarrow> Inl e
             | Inr version \<Rightarrow>
                 (case git_firstCommit g of
                    Inl e \<Rightarrow> Inl e
                  | Inr first \<Rightarrow>
                      (case getCommitMessages g first ''HEAD'' of
                         Inl e \<Rightarrow> Inl e
                       | Inr commitMessages \<Rightarrow>
                           if length commitMessages = 0 then Inl NoCommitsInRepository
                           else Inr (latestTag, version, commitMessages, '''')))))"

text \<open>The bump a release type asks for, with the placement check of \<open>run\<close>.\<close>

definition cut_bump ::
  "inputs \<Rightarrow> string \<Rightarrow> string \<Rightarrow> RELEASE_TYPES \<Rightarrow> SemanticVersion \<Rightarrow> error + SemanticVersion" where
  "cut_bump cfg currentBranch latestTag releaseType version =
     (case releaseType of
        NONE \<Rightarrow> Inl (NoValidChanges latestTag)
      | PATCH \<Rightarrow>
          if currentBranch = trunkBranchName cfg then Inl (PatchFromTrunk (trunkBranchName cfg))
          else Inr (bumpPatch version)
      | MINOR \<Rightarrow>
          if currentBranch \<noteq> trunkBranchName cfg then Inl (MinorOffTrunk (trunkBranchName cfg))
          else Inr (bumpMinor version)
      | MAJOR \<Rightarrow>
          if currentBranch \<noteq> trunkBranchName cfg then Inl (MajorOffTrunk (trunkBranchName cfg))
          else Inr (bumpMajor version))"

definition run_release_cut :: "inputs \<Rightarrow> git \<Rightarrow> string \<Rightarrow> (error + outputs) \<times> git" where
  "run_release_cut cfg g currentBranch =
     (if currentBranch \<noteq> trunkBranchName cfg
         \<and> \<not> isReleaseBranch currentBranch (releaseBranchRegex cfg)
      then (Inl (NotTrunkOrReleaseBranch currentBranch (trunkBranchName cfg)), g)
      else
        let branchType = (if currentBranch = trunkBranchName cfg then ''trunk''
                          else if isReleaseBranch currentBranch (releaseBranchRegex cfg)
                          then ''release'' else '''')
        in case cut_reference g currentBranch of
             Inl e \<Rightarrow> (Inl e, g)
           | Inr (latestTag, version, commitMessages, previousVersion) \<Rightarrow>
               let previousStableVersion = getLatestStableTag g;
                   releaseType = releaseTypeFromCommitMessages commitMessages
               in (case cut_bump cfg currentBranch latestTag releaseType version of
                     Inl e \<Rightarrow> (Inl e, g)
                   | Inr version \<Rightarrow>
                       let out = \<lparr> next_version = toString version,
                                   previous_version = previousVersion,
                                   previous_stable_version = previousStableVersion \<rparr>
                       in if branchType = ''trunk'' then
                            (case cutReleaseFromTrunk g currentBranch
                                    (generateReleaseBranchName (releaseBranchStringTemplate cfg) version)
                                    (toString version) of
                               (Inl e, g1) \<Rightarrow> (Inl e, g1)
                             | (Inr u, g1) \<Rightarrow> publish cfg g1 out)
                          else if branchType = ''release'' then
                            (case cutReleaseFromReleaseBranch g currentBranch (toString version) of
                               (Inl e, g1) \<Rightarrow> (Inl e, g1)
                             | (Inr u, g1) \<Rightarrow> publish cfg g1 out)
                          else publish cfg g out))"

definition run :: "inputs \<Rightarrow> git \<Rightarrow> (error + outputs) \<times> git" where
  "run cfg g =
     (if action cfg \<noteq> ''release'' \<and> action cfg \<noteq> ''release-cut''
      then (Inl (NotSupportedAction (action cfg)), g)
      else
        let currentBranch = getCurrentBranch g
        in if action cfg = ''release'' then run_release cfg g currentBranch
           else run_release_cut cfg g currentBranch)"

section \<open>The earlier main.ts\<close>

text \<open>
  The sources hold a second \<open>main.ts\<close>, written against \<open>cutReleaseBranch\<close> of \<open>git.ts\<close>. Its
  release action is the one above (the messages differ in their quotation marks only). Its
  release cut takes the latest tag reachable from the trunk, whatever the current branch is,
  and tags or cuts the branch within the case of each release type.
\<close>

definition cut_reference' ::
  "inputs \<Rightarrow> git \<Rightarrow> error + (string \<times> SemanticVersion \<times> string list \<times> string)" where
  "cut_reference' cfg g =
     (case getLatestTag g (trunkBranchName cfg) of
        Inl e \<Rightarrow> Inl e
      | Inr latestTag \<Rightarrow>
          if latestTag \<noteq> '''' then
            (case new_SemanticVersion latestTag of
               Inl e \<Rightarrow> Inl e
             | Inr version \<Rightarrow>
                 (case getCommitMessages g latestTag ''HEAD'' of
                    Inl e \<Rightarrow> Inl e
                  | Inr commitMessages \<Rightarrow>
                      if length commitMessages = 0 then Inl (NoCommitsSinceTag latestTag)
                      else Inr (latestTag, version, commitMessages, toString version)))
          else
            (case new_SemanticVersion ''0.0.0'' of
               Inl e \<Rightarrow> Inl e
             | Inr version \<Rightarrow>
                 (case git_firstCommit g of
                    Inl e \<Rightarrow> Inl e
                  | Inr first \<Rightarrow>
                      (case getCommitMessages g first ''HEAD'' of
                         Inl e \<Rightarrow> Inl e
                       | Inr commitMessages \<Rightarrow>
                           if length commitMessages = 0 then Inl NoCommitsInRepository
                           else Inr (latestTag, version, commitMessages, '''')))))"

definition run_release_cut' :: "inputs \<Rightarrow> git \<Rightarrow> string \<Rightarrow> (error + outputs) \<times> git" where
  "run_release_cut' cfg g currentBranch =
     (if currentBranch \<noteq> trunkBranchName cfg
         \<and> \<not> isReleaseBranch currentBranch (releaseBranchRegex cfg)
      then (Inl (NotTrunkOrReleaseBranch currentBranch (trunkBranchName cfg)), g)
      else
        case cut_reference' cfg g of
          Inl e \<Rightarrow> (Inl e, g)
        | Inr (latestTag, version, commitMessages, previousVersion) \<Rightarrow>
            let previousStableVersion = getLatestStableTag g;
                releaseType = releaseTypeFromCommitMessages commitMessages;
                out = (\<lambda>version. \<lparr> next_version = toString version,
                                     previous_version = previousVersion,
                                     previous_stable_version = previousStableVersion \<rparr>)
            in (case releaseType of
                  NONE \<Rightarrow> (Inl (NoValidChanges latestTag), g)
                | PATCH \<Rightarrow>
                    if currentBranch = trunkBranchName cfg
                    then (Inl (PatchFromTrunk (trunkBranchName cfg)), g)
                    else
                      let version = bumpPatch version
                      in (case git_tag g (toString version) of
                            (Inl e, g1) \<Rightarrow> (Inl e, g1)
                          | (Inr u, g1) \<Rightarrow> publish cfg g1 (out version))
                | MINOR \<Rightarrow>
                    if currentBranch \<noteq> trunkBranchName cfg
                    then (Inl (MinorOffTrunk (trunkBranchName cfg)), g)
                    else
                      let version = bumpMinor version
                      in (case cutReleaseBranch g (trunkBranchName cfg)
                                 (generateReleaseBranchName (releaseBranchStringTemplate cfg) version)
                                 (toString version) of
                            (Inl e, g1) \<Rightarrow> (Inl e, g1)
                          | (Inr u, g1) \<Rightarrow> publish cfg g1 (out version))
                | MAJOR \<Rightarrow>
                    if currentBranch \<noteq> trunkBranchName cfg
                    then (Inl (MajorOffTrunk (trunkBranchName cfg)), g)
                    else
                      let version = bumpMajor version
                      in (case cutReleaseBranch g (trunkBranchName cfg)
                                 (generateReleaseBranchName (releaseBranchStringTemplate cfg) version)
                                 (toString version) of
                            (Inl e, g1) \<Rightarrow> (Inl e, g1)
                          | (Inr u, g1) \<Rightarrow> publish cfg g1 (out version))))"

definition run' :: "inputs \<Rightarrow> git \<Rightarrow> (error + outputs) \<times> git" where
  "run' cfg g =
     (if action cfg \<noteq> ''release'' \<and> action cfg \<noteq> ''release-cut''
      then (Inl (NotSupportedAction (action cfg)), g)
      else
        let currentBranch = getCurrentBranch g
        in if action cfg = ''release'' then run_release cfg g currentBranch
           else run_release_cut' cfg g currentBranch)"

section \<open>Notions of the specification\<close>

text \<open>A decimal numeral without leading zeros, as the version grammar writes a number.\<close>

definition decimal_numeral :: "string \<Rightarrow> bool" where
  "decimal_numeral w =
     (w = ''0'' \<or> (\<exists>d ds. w = d # ds \<and> nonzero_digit d \<and> (\<forall>c\<in>set ds. is_digit c)))"

text \<open>The order of release types, major above minor above patch above none, and the most
  severe type of a list (none for the empty list).\<close>

fun severity :: "RELEASE_TYPES \<Rightarrow> nat" where
  "severity MAJOR = 3"
| "severity MINOR = 2"
| "severity PATCH = 1"
| "severity NONE = 0"

definition more_severe :: "RELEASE_TYPES \<Rightarrow> RELEASE_TYPES \<Rightarrow> RELEASE_TYPES" where
  "more_severe a b = (if severity b \<le> severity a then a else b)"

definition max_severity :: "RELEASE_TYPES list \<Rightarrow> RELEASE_TYPES" where
  "max_severity ts = foldr more_severe ts NONE"


text \<open>The characters a pattern can consume.\<close>

fun alphabet :: "rx \<Rightarrow> char set" where
  "alphabet (Chr c) = {c}"
| "alphabet (Cls p) = {c. p c}"
| "alphabet (Seq a b) = alphabet a \<union> alphabet b"
| "alphabet (Alt a b) = alphabet a \<union> alphabet b"
| "alphabet (Opt a) = alphabet a"
| "alphabet (Star a) = alphabet a"
| "alphabet (Plus a) = alphabet a"
| "alphabet (Grp n a) = alphabet a"

text \<open>Substituting the first occurrence of a placeholder and nothing else: the text is copied up
  to the first place where the placeholder stands, the replacement is written, and the rest
  follows as it is.\<close>

fun replace_first :: "string \<Rightarrow> string \<Rightarrow> string \<Rightarrow> string" where
  "replace_first [] pat rep = (if pat = [] then rep else [])"
| "replace_first (c # cs) pat rep =
     (if startsWith (c # cs) pat then rep @ drop (length pat) (c # cs)
      else c # replace_first cs pat rep)"

text \<open>The end of a release cut, once the version is bumped: the branch and the tag, the
  push, the outputs.\<close>

definition cut_finish :: "inputs \<Rightarrow> git \<Rightarrow> string \<Rightarrow> string \<Rightarrow> SemanticVersion \<Rightarrow> (error + outputs) \<times> git"
  where
  "cut_finish cfg g currentBranch previousVersion version =
     (let out = \<lparr> next_version = toString version, previous_version = previousVersion,
                  previous_stable_version = getLatestStableTag g \<rparr>
      in if currentBranch = trunkBranchName cfg then
           (case cutReleaseFromTrunk g currentBranch
                   (generateReleaseBranchName (releaseBranchStringTemplate cfg) version)
                   (toString version) of
              (Inl e, g1) \<Rightarrow> (Inl e, g1)
            | (Inr u, g1) \<Rightarrow> publish cfg g1 out)
         else
           (case cutReleaseFromReleaseBranch g currentBranch (toString version) of
              (Inl e, g1) \<Rightarrow> (Inl e, g1)
            | (Inr u, g1) \<Rightarrow> publish cfg g1 out))"

text \<open>The errors the specification files under \<open>BranchPlacementError\<close>: a release type that
  does not fit the kind of the current branch.\<close>

fun BranchPlacementError :: "error \<Rightarrow> bool" where
  "BranchPlacementError (PatchFromTrunk trunk) = True"
| "BranchPlacementError (MinorOffTrunk trunk) = True"
| "BranchPlacementError (MajorOffTrunk trunk) = True"
| "BranchPlacementError e = False"

section \<open>Stores and inputs of the test suite\<close>

text \<open>An order of names for the examples, by character code, and the inputs of the
  integration tests, with the release-branch pattern \<^verbatim>\<open>^release-(0|[1-9]\d*)\.(0|[1-9]\d*)\.x$\<close>.\<close>

fun refname_le :: "string \<Rightarrow> string \<Rightarrow> bool" where
  "refname_le [] ys = True"
| "refname_le (x # xs) [] = False"
| "refname_le (x # xs) (y # ys) = ((of_char x :: nat) < of_char y \<or> (x = y \<and> refname_le xs ys))"

definition release_branch_rx :: rx where
  "release_branch_rx =
     seqs [lit ''release-'', Grp 1 numeric_rx, Chr CHR ''.'', Grp 2 numeric_rx, lit ''.x'']"

definition test_inputs :: "string \<Rightarrow> inputs" where
  "test_inputs act =
     \<lparr> action = act,
       trunkBranchName = ''main'',
       releaseBranchRegex = (\<lambda>b. match b release_branch_rx \<noteq> None),
       releaseBranchStringTemplate = ''release-${major}.${minor}.x'',
       dryRun = True \<rparr>"

text \<open>
  The store of the test ``should return latest stable tag reachable from older branch'':
  \<^verbatim>\<open>
       / v1.0.0-rc.2, v1.0.0 -> v1.0.1-rc.1 (release-1.0.x)
  v1.0.0-rc.1 -> . (main)
                 \-> v1.1.0-rc.2, v1.1.0 (release-1.1.x)
  \<close>
\<close>

definition two_release_lines :: git where
  "two_release_lines =
     \<lparr> commits = [\<lparr> hash = ''c1'', parents = [], body = ''Initial commit'' \<rparr>,
                  \<lparr> hash = ''c2'', parents = [''c1''], body = ''Release v1.0.0-rc.2'' \<rparr>,
                  \<lparr> hash = ''c3'', parents = [''c2''], body = ''v1.0.1-rc.1'' \<rparr>,
                  \<lparr> hash = ''c4'', parents = [''c1''], body = ''Update to v1.1.0-rc.1'' \<rparr>,
                  \<lparr> hash = ''c5'', parents = [''c4''], body = ''Release v1.1.0-rc.2'' \<rparr>],
       tags = [(''v1.0.0-rc.1'', ''c1''), (''v1.0.0-rc.2'', ''c2''), (''v1.0.0'', ''c2''),
               (''v1.0.1-rc.1'', ''c3''), (''v1.1.0-rc.2'', ''c5''), (''v1.1.0'', ''c5'')],
       branches = [(''main'', ''c4''), (''release-1.0.x'', ''c3''), (''release-1.1.x'', ''c5'')],
       HEAD = OnBranch ''release-1.1.x'',
       versionsort = refname_le,
       listing = refname_le,
       remote_ok = True \<rparr>"

text \<open>
  A release branch one commit ahead of the trunk, with the given tags on its head and a fix as
  its last commit (the stores of the tests of the release action):
  \<^verbatim>\<open>
                 /-> tags (release-1.1.x)
  v1.0.0 -> v1.1.0-rc.1 (main)
  \<close>
\<close>

definition release_line :: "string list \<Rightarrow> git" where
  "release_line names =
     \<lparr> commits = [\<lparr> hash = ''c1'', parents = [], body = ''Initial commit'' \<rparr>,
                  \<lparr> hash = ''c2'', parents = [''c1''], body = ''feat: a feature'' \<rparr>,
                  \<lparr> hash = ''c3'', parents = [''c2''], body = ''fix: a fix'' \<rparr>],
       tags = [(''v1.0.0'', ''c1''), (''v1.1.0-rc.1'', ''c2'')] @ map (\<lambda>name. (name, ''c3'')) names,
       branches = [(''main'', ''c2''), (''release-1.1.x'', ''c3'')],
       HEAD = OnBranch ''release-1.1.x'',
       versionsort = refname_le,
       listing = refname_le,
       remote_ok = True \<rparr>"

text \<open>
  A trunk with one commit after its last tag, or with no tag at all (the stores of the tests
  ``make patch cut on trunk'' and ``make minor cut on new repository'').
\<close>

definition trunk_line :: "(string \<times> hash) list \<Rightarrow> string \<Rightarrow> git" where
  "trunk_line tagged message =
     \<lparr> commits = [\<lparr> hash = ''c1'', parents = [], body = ''Initial commit'' \<rparr>,
                  \<lparr> hash = ''c2'', parents = [''c1''], body = message \<rparr>],
       tags = tagged,
       branches = [(''main'', ''c2'')],
       HEAD = OnBranch ''main'',
       versionsort = refname_le,
       listing = refname_le,
       remote_ok = True \<rparr>"

text \<open>
  A release branch with a fix after its candidate tag, while the trunk has gone on to the next
  candidate:
  \<^verbatim>\<open>
              /-> . (fix) (release-1.0.x)
  v1.0.0-rc.1 -> v1.1.0-rc.1 (main)
  \<close>
\<close>

definition trunk_gone_on :: git where
  "trunk_gone_on =
     \<lparr> commits = [\<lparr> hash = ''c1'', parents = [], body = ''Initial commit'' \<rparr>,
                  \<lparr> hash = ''c2'', parents = [''c1''], body = ''fix(my-scope): hey'' \<rparr>,
                  \<lparr> hash = ''c3'', parents = [''c1''], body = ''fix: on the trunk'' \<rparr>],
       tags = [(''v1.0.0-rc.1'', ''c1''), (''v1.1.0-rc.1'', ''c3'')],
       branches = [(''main'', ''c3''), (''release-1.0.x'', ''c2'')],
       HEAD = OnBranch ''release-1.0.x'',
       versionsort = refname_le,
       listing = refname_le,
       remote_ok = True \<rparr>"

lemma split_nonempty: "split sep s \<noteq> []"
  by (induction s) (auto split: list.splits)

lemma split_no_sep: "sep \<notin> set w \<Longrightarrow> split sep w = [w]"
  by (induction w) auto

lemma split_snoc: "sep \<notin> set w \<Longrightarrow> split sep (q @ sep # w) = split sep q @ [w]"
  by (induction q) (auto simp: split_no_sep split_nonempty split: list.splits)

lemma join_snoc: "xs \<noteq> [] \<Longrightarrow> join sep (xs @ [x]) = join sep xs @ sep @ x"
  by (induction sep xs rule: join.induct) auto

lemma join_split: "join [sep] (split sep s) = s"
proof (induction s)
  case Nil
  show ?case by simp
next
  case (Cons c s)
  show ?case
  proof (cases "c = sep")
    case True
    obtain p ps where "split sep s = p # ps"
      using split_nonempty [of sep s] by (cases "split sep s") auto
    with True Cons show ?thesis by simp
  next
    case False
    obtain p ps where ps: "split sep s = p # ps"
      using split_nonempty [of sep s] by (cases "split sep s") auto
    with False Cons show ?thesis by (cases ps) auto
  qed
qed

lemma digit_value_10: "is_digit c \<Longrightarrow> digit_value 10 c \<noteq> None"
  by (auto simp: is_digit_def digit_chars_def digit_value_def)


lemma digit_not_special:
  "is_digit c \<Longrightarrow> \<not> is_whitespace c \<and> c \<noteq> CHR ''-'' \<and> c \<noteq> CHR ''+'' \<and> c \<noteq> CHR ''x''
     \<and> c \<noteq> CHR ''X'' \<and> c \<noteq> CHR ''.'' \<and> c \<noteq> CHR ''$''"
  by (auto simp: is_digit_def digit_chars_def is_whitespace_def whitespace_chars_def)

lemma parseInt_digits:
  assumes "w \<noteq> []" and "\<forall>c\<in>set w. is_digit c"
  shows "parseInt w = Num (int (digits_value 10 w))"
proof -
  obtain c r where w: "w = c # r" using assms(1) by (cases w) auto
  have c: "is_digit c" using assms(2) w by simp
  have h1: "dropWhile is_whitespace w = w"
    using c digit_not_special [of c] w by simp
  have h2: "(case w of [] \<Rightarrow> False | c # r \<Rightarrow> c = CHR ''-'') = False"
    using c digit_not_special [of c] w by simp
  have h3: "(case w of [] \<Rightarrow> [] | c # r \<Rightarrow> if c = CHR ''-'' \<or> c = CHR ''+'' then r else w) = w"
    using c digit_not_special [of c] w by simp
  have nohex: "(take 2 w = ''0x'' \<or> take 2 w = ''0X'') = False"
  proof (cases r)
    case Nil
    then show ?thesis using w by simp
  next
    case (Cons d r')
    then have "is_digit d" using assms(2) w by simp
    then show ?thesis using w Cons digit_not_special [of d] by auto
  qed
  have tw: "takeWhile (\<lambda>c. digit_value 10 c \<noteq> None) w = w"
    using assms(2) digit_value_10 by (simp add: takeWhile_eq_all_conv)
  show ?thesis
    unfolding parseInt_def Let_def h1 h2 h3 nohex if_False tw
    using assms(1) by simp
qed








lemma nat_toString_digits: "set (nat_toString n) \<subseteq> set digit_chars"
proof (induction n rule: nat_toString.induct)
  case (1 n)
  have len: "length digit_chars = 10" by (simp add: digit_chars_def)
  have "k < 10 \<Longrightarrow> digit_chars ! k \<in> set digit_chars" for k
    using nth_mem [of k digit_chars] len by simp
  then show ?case using 1 by (subst nat_toString.simps) auto
qed

lemma number_toString_no_dollar: "CHR ''$'' \<notin> set (number_toString x)"
proof (cases x)
  case NaN
  then show ?thesis by simp
next
  case (Num i)
  have "CHR ''$'' \<notin> set (nat_toString n)" for n
    using nat_toString_digits [of n] by (auto simp: digit_chars_def)
  then show ?thesis using Num by simp
qed

lemma getSubstitution_plain:
  "CHR ''$'' \<notin> set r \<Longrightarrow> getSubstitution m p f r = r"
  by (induction m p f r rule: getSubstitution.induct) auto

lemma letter_facts:
  "l \<in> set (lower_chars @ upper_chars) \<Longrightarrow>
     \<not> is_whitespace l \<and> l \<noteq> CHR ''-'' \<and> l \<noteq> CHR ''+'' \<and> l \<noteq> CHR ''0''
     \<and> digit_value 10 l = None"
  unfolding lower_chars_def upper_chars_def is_whitespace_def whitespace_chars_def digit_value_def
  by auto

lemma letter_parseInt:
  assumes "l \<in> set (lower_chars @ upper_chars)"
  shows "parseInt (l # r) = NaN"
proof -
  note f = letter_facts [OF assms]
  have h1: "dropWhile is_whitespace (l # r) = l # r" using f by simp
  have h2: "(case l # r of [] \<Rightarrow> False | c # r \<Rightarrow> c = CHR ''-'') = False" using f by simp
  have h3: "(case l # r of [] \<Rightarrow> [] | c # r' \<Rightarrow> if c = CHR ''-'' \<or> c = CHR ''+'' then r' else l # r) = l # r"
    using f by simp
  have nohex: "(take 2 (l # r) = ''0x'' \<or> take 2 (l # r) = ''0X'') = False"
    using f by (cases r) auto
  have tw: "takeWhile (\<lambda>c. digit_value 10 c \<noteq> None) (l # r) = []" using f by simp
  show ?thesis
    unfolding parseInt_def Let_def h1 h2 h3 nohex if_False tw by simp
qed

lemma replace_replace_first:
  "CHR ''$'' \<notin> set rep \<Longrightarrow> replace s pat rep = replace_first s pat rep"
proof (induction s)
  case Nil
  then show ?case by (simp add: replace_def getSubstitution_plain)
next
  case (Cons c cs)
  show ?case
  proof (cases "startsWith (c # cs) pat")
    case True
    then show ?thesis using Cons.prems by (simp add: replace_def getSubstitution_plain)
  next
    case False
    then show ?thesis
      using Cons by (cases "indexOf cs pat") (auto simp: replace_def getSubstitution_plain)
  qed
qed

lemma startsWith_append: "startsWith (p @ s) p"
  by (induction p) auto

lemma replace_first_hit:
  "startsWith s pat \<Longrightarrow> replace_first s pat rep = rep @ drop (length pat) s"
  by (cases s; cases pat) auto

lemma replace_first_first:
  "\<forall>i<length a. \<not> startsWith (drop i (a @ pat @ b)) pat \<Longrightarrow>
   replace_first (a @ pat @ b) pat rep = a @ rep @ b"
proof (induction a)
  case Nil
  show ?case using replace_first_hit [OF startsWith_append, of pat b rep] by simp
next
  case (Cons x a)
  have "\<not> startsWith (drop 0 ((x # a) @ pat @ b)) pat" using Cons.prems by blast
  then have no: "\<not> startsWith (x # a @ pat @ b) pat" by simp
  have "\<forall>i<length a. \<not> startsWith (drop i (a @ pat @ b)) pat"
  proof (intro allI impI)
    fix i assume "i < length a"
    then have "\<not> startsWith (drop (Suc i) ((x # a) @ pat @ b)) pat" using Cons.prems by auto
    then show "\<not> startsWith (drop i (a @ pat @ b)) pat" by simp
  qed
  then have "replace_first (a @ pat @ b) pat rep = a @ rep @ b" by (rule Cons.IH)
  then show ?case using no by simp
qed

subsection \<open>Bumping the patch\<close>

text \<open>
  The three cases in which \<open>bumpPatch\<close> does what its tests expect. Without a prerelease it
  adds one to the patch and sets the prerelease to \<open>rc.1\<close>; with a prerelease that ends in a
  dot and a run of decimal digits, it replaces the run by the numeral of the number plus one and
  leaves major, minor and patch as they are; with a prerelease whose last dot-segment begins with
  a letter, it appends \<open>.1\<close>.
\<close>

theorem bumpPatch_cases:
  "(\<forall>n. prerelease v = None \<and> patch v = Num n \<longrightarrow>
      bumpPatch v = v \<lparr> patch := Num (n + 1), prerelease := Some ''rc.1'' \<rparr>)
   \<and> (\<forall>q ds. prerelease v = Some (q @ ''.'' @ ds) \<and> ds \<noteq> [] \<and> (\<forall>c\<in>set ds. is_digit c) \<longrightarrow>
      bumpPatch v = v \<lparr> prerelease := Some (q @ ''.'' @ nat_toString (digits_value 10 ds + 1)) \<rparr>)
   \<and> (\<forall>p l r. prerelease v = Some p \<and> last (split CHR ''.'' p) = l # r
         \<and> l \<in> set (lower_chars @ upper_chars) \<longrightarrow>
      bumpPatch v = v \<lparr> prerelease := Some (p @ ''.1'') \<rparr>)"
proof (intro conjI allI impI)
  fix n
  assume "prerelease v = None \<and> patch v = Num n"
  then show "bumpPatch v = v \<lparr> patch := Num (n + 1), prerelease := Some ''rc.1'' \<rparr>"
    by (simp add: bumpPatch_def)
next
  fix q ds
  assume a: "prerelease v = Some (q @ ''.'' @ ds) \<and> ds \<noteq> [] \<and> (\<forall>c\<in>set ds. is_digit c)"
  then have nodot: "CHR ''.'' \<notin> set ds" using digit_not_special by blast
  have parts: "split CHR ''.'' (q @ CHR ''.'' # ds) = split CHR ''.'' q @ [ds]"
    using split_snoc [OF nodot, of q] by simp
  have pi: "parseInt ds = Num (int (digits_value 10 ds))"
    using a parseInt_digits by blast
  have j: "join ''.'' (split CHR ''.'' q @ [w]) = q @ CHR ''.'' # w" for w
    using join_snoc [OF split_nonempty, of "''.''" "CHR ''.''" q w] join_split [of "CHR ''.''" q]
    by simp
  show "bumpPatch v = v \<lparr> prerelease := Some (q @ ''.'' @ nat_toString (digits_value 10 ds + 1)) \<rparr>"
    using a by (simp add: bumpPatch_def Let_def parts pi isNaN_def j nat_add_distrib)
next
  fix p l r
  assume a: "prerelease v = Some p \<and> last (split CHR ''.'' p) = l # r
    \<and> l \<in> set (lower_chars @ upper_chars)"
  have ne: "p \<noteq> []" using a by auto
  have "split CHR ''.'' p ! (length (split CHR ''.'' p) - 1) = l # r"
    using a split_nonempty [of "CHR ''.''" p] by (simp add: last_conv_nth)
  moreover have "parseInt (l # r) = NaN" using a letter_parseInt by blast
  ultimately show "bumpPatch v = v \<lparr> prerelease := Some (p @ ''.1'') \<rparr>"
    using a ne by (simp add: bumpPatch_def Let_def isNaN_def)
qed

theorem bumpPatch_cases_witness:
  "bumpPatch \<lparr> major = Num 1, minor = Num 2, patch = Num 3, prerelease = None \<rparr>
     = \<lparr> major = Num 1, minor = Num 2, patch = Num 4, prerelease = Some ''rc.1'' \<rparr>
   \<and> bumpPatch \<lparr> major = Num 1, minor = Num 2, patch = Num 3, prerelease = Some ''rc.9'' \<rparr>
     = \<lparr> major = Num 1, minor = Num 2, patch = Num 3, prerelease = Some ''rc.10'' \<rparr>
   \<and> bumpPatch \<lparr> major = Num 1, minor = Num 2, patch = Num 3, prerelease = Some ''foo'' \<rparr>
     = \<lparr> major = Num 1, minor = Num 2, patch = Num 3, prerelease = Some ''foo.1'' \<rparr>"
proof -
  let ?a = "\<lparr> major = Num 1, minor = Num 2, patch = Num 3, prerelease = None \<rparr>"
  let ?b = "\<lparr> major = Num 1, minor = Num 2, patch = Num 3, prerelease = Some ''rc.9'' \<rparr>"
  let ?c = "\<lparr> major = Num 1, minor = Num 2, patch = Num 3, prerelease = Some ''foo'' \<rparr>"
  have ten: "nat_toString 10 = ''10''" by code_simp
  have nine: "digits_value 10 ''9'' = 9" by code_simp
  have digs: "\<forall>c\<in>set ''9''. is_digit c" by (simp add: is_digit_def digit_chars_def)
  have "bumpPatch ?a = ?a \<lparr> patch := Num (3 + 1), prerelease := Some ''rc.1'' \<rparr>"
    using bumpPatch_cases [of ?a] by simp
  moreover have "bumpPatch ?b = ?b \<lparr> prerelease := Some (''rc'' @ ''.'' @ nat_toString (digits_value 10 ''9'' + 1)) \<rparr>"
  proof -
    have "prerelease ?b = Some (''rc'' @ ''.'' @ ''9'') \<and> ''9'' \<noteq> [] \<and> (\<forall>c\<in>set ''9''. is_digit c)"
      using digs by simp
    then show ?thesis using bumpPatch_cases [of ?b] by blast
  qed
  moreover have "bumpPatch ?c = ?c \<lparr> prerelease := Some (''foo'' @ ''.1'') \<rparr>"
    using bumpPatch_cases [of ?c] by (simp add: lower_chars_def)
  ultimately show ?thesis by (simp add: ten nine)
qed

text \<open>
  C6. \<open>bumpPatch\<close> on a version without prerelease adds one to the patch and sets the
  prerelease to \<open>rc.1\<close>, on the prerelease \<open>rc.N\<close> gives \<open>rc.(N+1)\<close>, and on a prerelease whose
  last dot-segment is not a number appends \<open>.1\<close>. The last case fails on the code: \<open>parseInt\<close>
  reads the digits a segment begins with and ignores what follows them, so the version of the
  tag \<open>v1.2.3-beta.1a\<close>, whose last segment \<open>1a\<close> is not a number, is bumped to the prerelease
  \<open>beta.2\<close> and not to \<open>beta.1a.1\<close>.
\<close>

theorem bumpPatch_leading_digits:
  "new_SemanticVersion ''v1.2.3-beta.1a''
     = Inr \<lparr> major = Num 1, minor = Num 2, patch = Num 3, prerelease = Some ''beta.1a'' \<rparr>
   \<and> last (split CHR ''.'' ''beta.1a'') = ''1a''
   \<and> parseInt ''1a'' = Num 1
   \<and> bumpPatch \<lparr> major = Num 1, minor = Num 2, patch = Num 3, prerelease = Some ''beta.1a'' \<rparr>
       = \<lparr> major = Num 1, minor = Num 2, patch = Num 3, prerelease = Some ''beta.2'' \<rparr>"
  by code_simp

subsection \<open>The matcher\<close>

declare matches.simps [simp del]

lemma in_matches_Chr:
  "(s', c') \<in> set (matches (Chr x) s c) \<longleftrightarrow> s = x # s' \<and> c' = c"
  by (cases s) (auto simp: matches.simps(1))

lemma in_matches_Cls:
  "(s', c') \<in> set (matches (Cls p) s c) \<longleftrightarrow> (\<exists>x. s = x # s' \<and> p x) \<and> c' = c"
  by (cases s) (auto simp: matches.simps(2))

lemma in_matches_Seq:
  "(s', c') \<in> set (matches (Seq a b) s c) \<longleftrightarrow>
     (\<exists>s1 c1. (s1, c1) \<in> set (matches a s c) \<and> (s', c') \<in> set (matches b s1 c1))"
  by (auto simp: matches.simps(3))

lemma in_matches_Alt:
  "(s', c') \<in> set (matches (Alt a b) s c) \<longleftrightarrow>
     (s', c') \<in> set (matches a s c) \<or> (s', c') \<in> set (matches b s c)"
  by (auto simp: matches.simps(4))

lemma in_matches_Opt:
  "(s', c') \<in> set (matches (Opt a) s c) \<longleftrightarrow>
     ((s', c') \<in> set (matches a s (reset (groups a) c)) \<and> length s' < length s)
     \<or> (s' = s \<and> c' = c)"
  by (auto simp: matches.simps(5))

lemma in_matches_Star:
  "(s', c') \<in> set (matches (Star a) s c) \<longleftrightarrow>
     (\<exists>s1 c1. (s1, c1) \<in> set (matches a s (reset (groups a) c)) \<and> length s1 < length s
              \<and> (s', c') \<in> set (matches (Star a) s1 c1))
     \<or> (s' = s \<and> c' = c)"
  by (subst matches.simps(6)) auto

lemma in_matches_Plus:
  "(s', c') \<in> set (matches (Plus a) s c) \<longleftrightarrow>
     (\<exists>s1 c1. (s1, c1) \<in> set (matches a s (reset (groups a) c))
              \<and> (s', c') \<in> set (matches (Star a) s1 c1))"
  by (subst matches.simps(7)) auto

lemma in_matches_Grp:
  "(s', c') \<in> set (matches (Grp n a) s c) \<longleftrightarrow>
     (\<exists>c1. (s', c1) \<in> set (matches a s c)
           \<and> c' = capture n (take (length s - length s') s) c1)"
  by (auto simp: matches.simps(8))

lemmas in_matches =
  in_matches_Chr in_matches_Cls in_matches_Seq in_matches_Alt in_matches_Opt in_matches_Plus
  in_matches_Grp

lemma matches_consumed:
  "(s', c') \<in> set (matches r s c) \<Longrightarrow> \<exists>w. s = w @ s' \<and> set w \<subseteq> alphabet r"
proof (induction r s c arbitrary: s' c' rule: matches.induct)
  case (1 x s cs)
  then show ?case by (auto simp: in_matches_Chr)
next
  case (2 p s cs)
  then show ?case by (auto simp: in_matches_Cls)
next
  case (3 a b s cs)
  from "3.prems" obtain s1 c1 where
    a: "(s1, c1) \<in> set (matches a s cs)" and b: "(s', c') \<in> set (matches b s1 c1)"
    unfolding in_matches_Seq by blast
  from "3.IH"(1) [OF a] obtain w1 where w1: "s = w1 @ s1" "set w1 \<subseteq> alphabet a" by blast
  from "3.IH"(2) [OF a refl b] obtain w2 where w2: "s1 = w2 @ s'" "set w2 \<subseteq> alphabet b" by blast
  show ?case using w1 w2 by (intro exI [of _ "w1 @ w2"]) auto
next
  case (4 a b s cs)
  then show ?case unfolding in_matches_Alt by fastforce
next
  case (5 a s cs)
  then show ?case unfolding in_matches_Opt by fastforce
next
  case (6 a s cs)
  from "6.prems" consider
    (iter) s1 c1 where "(s1, c1) \<in> set (matches a s (reset (groups a) cs))" "length s1 < length s"
      "(s', c') \<in> set (matches (Star a) s1 c1)"
    | (stop) "s' = s" "c' = cs"
    by (subst (asm) in_matches_Star) blast
  then show ?case
  proof cases
    case iter
    have mem: "(s1, c1) \<in> set (filter (\<lambda>(s1, c1). length s1 < length s)
                                  (matches a s (reset (groups a) cs)))"
      using iter by simp
    from "6.IH"(1) [OF iter(1)] obtain w1 where w1: "s = w1 @ s1" "set w1 \<subseteq> alphabet a" by blast
    from "6.IH"(2) [OF mem refl iter(3)] obtain w2 where
      w2: "s1 = w2 @ s'" "set w2 \<subseteq> alphabet (Star a)" by blast
    show ?thesis using w1 w2 by (intro exI [of _ "w1 @ w2"]) auto
  next
    case stop
    then show ?thesis by simp
  qed
next
  case (7 a s cs)
  from "7.prems" obtain s1 c1 where
    a: "(s1, c1) \<in> set (matches a s (reset (groups a) cs))"
    and b: "(s', c') \<in> set (matches (Star a) s1 c1)"
    unfolding in_matches_Plus by blast
  from "7.IH"(1) [OF a] obtain w1 where w1: "s = w1 @ s1" "set w1 \<subseteq> alphabet a" by blast
  from "7.IH"(2) [OF a refl b] obtain w2 where
    w2: "s1 = w2 @ s'" "set w2 \<subseteq> alphabet (Star a)" by blast
  show ?case using w1 w2 by (intro exI [of _ "w1 @ w2"]) auto
next
  case (8 n a s cs)
  then show ?case unfolding in_matches_Grp by fastforce
qed

lemma matches_suffix: "(s', c') \<in> set (matches r s c) \<Longrightarrow> \<exists>w. s = w @ s'"
  using matches_consumed by blast

lemma matches_length: "(s', c') \<in> set (matches r s c) \<Longrightarrow> length s' \<le> length s"
  using matches_suffix by fastforce

lemma grp_Nil [simp]: "grp [] k = None"
  by (simp add: grp_def)

lemma map_of_filter_key:
  "map_of (filter (\<lambda>(k, w). P k) c) k = (if P k then map_of c k else None)"
  by (induction c) auto

lemma grp_capture [simp]: "grp (capture n w c) k = (if k = n then Some w else grp c k)"
  by (simp add: grp_def capture_def map_of_filter_key)

lemma grp_reset [simp]: "grp (reset ns c) k = (if k \<in> set ns then None else grp c k)"
  by (simp add: grp_def reset_def map_of_filter_key)

lemma matches_frame:
  "(s', c') \<in> set (matches r s c) \<Longrightarrow> n \<notin> set (groups r) \<Longrightarrow> grp c' n = grp c n"
proof (induction r s c arbitrary: s' c' rule: matches.induct)
  case (1 x s cs)
  then show ?case by (auto simp: in_matches_Chr)
next
  case (2 p s cs)
  then show ?case by (auto simp: in_matches_Cls)
next
  case (3 a b s cs)
  from "3.prems" obtain s1 c1 where
    a: "(s1, c1) \<in> set (matches a s cs)" and b: "(s', c') \<in> set (matches b s1 c1)"
    unfolding in_matches_Seq by blast
  have "grp c1 n = grp cs n" using "3.IH"(1) [OF a] "3.prems"(2) by simp
  moreover have "grp c' n = grp c1 n" using "3.IH"(2) [OF a refl b] "3.prems"(2) by simp
  ultimately show ?case by simp
next
  case (4 a b s cs)
  then show ?case unfolding in_matches_Alt by fastforce
next
  case (5 a s cs)
  from "5.prems" show ?case unfolding in_matches_Opt using "5.IH" by fastforce
next
  case (6 a s cs)
  from "6.prems"(1) consider
    (iter) s1 c1 where "(s1, c1) \<in> set (matches a s (reset (groups a) cs))" "length s1 < length s"
      "(s', c') \<in> set (matches (Star a) s1 c1)"
    | (stop) "s' = s" "c' = cs"
    by (subst (asm) in_matches_Star) blast
  then show ?case
  proof cases
    case iter
    have mem: "(s1, c1) \<in> set (filter (\<lambda>(s1, c1). length s1 < length s)
                                  (matches a s (reset (groups a) cs)))"
      using iter by simp
    have "grp c1 n = grp (reset (groups a) cs) n" using "6.IH"(1) [OF iter(1)] "6.prems"(2) by simp
    moreover have "grp c' n = grp c1 n" using "6.IH"(2) [OF mem refl iter(3)] "6.prems"(2) by simp
    ultimately show ?thesis using "6.prems"(2) by simp
  next
    case stop
    then show ?thesis by simp
  qed
next
  case (7 a s cs)
  from "7.prems" obtain s1 c1 where
    a: "(s1, c1) \<in> set (matches a s (reset (groups a) cs))"
    and b: "(s', c') \<in> set (matches (Star a) s1 c1)"
    unfolding in_matches_Plus by blast
  have "grp c1 n = grp (reset (groups a) cs) n" using "7.IH"(1) [OF a] "7.prems"(2) by simp
  moreover have "grp c' n = grp c1 n" using "7.IH"(2) [OF a refl b] "7.prems"(2) by simp
  ultimately show ?case using "7.prems"(2) by simp
next
  case (8 n' a s cs)
  from "8.prems" show ?case unfolding in_matches_Grp using "8.IH" by fastforce
qed

lemma match_Some_in: "match s r = Some m \<Longrightarrow> ([], m) \<in> set (matches r s [])"
proof -
  assume a: "match s r = Some m"
  let ?f = "filter (\<lambda>(rest, cs). rest = []) (matches r s [])"
  from a obtain rest more where f: "?f = (rest, m) # more"
    unfolding match_def by (cases ?f) (auto split: prod.splits)
  then have "(rest, m) \<in> set ?f" by simp
  then show ?thesis by auto
qed

lemma match_in_Some: "([], m) \<in> set (matches r s []) \<Longrightarrow> \<exists>m'. match s r = Some m'"
proof -
  assume a: "([], m) \<in> set (matches r s [])"
  let ?f = "filter (\<lambda>(rest, cs). rest = []) (matches r s [])"
  from a have "([], m) \<in> set ?f" by simp
  then obtain x xs where "?f = x # xs" by (cases ?f) auto
  then show ?thesis unfolding match_def by (cases x) simp
qed

lemma star_cls_all:
  "\<forall>x\<in>set w. p x \<Longrightarrow> (s, c) \<in> set (matches (Star (Cls p)) (w @ s) c)"
proof (induction w)
  case Nil
  show ?case by (subst in_matches_Star) simp
next
  case (Cons x w)
  then have "(s, c) \<in> set (matches (Star (Cls p)) (w @ s) c)" by simp
  moreover have "(w @ s, c) \<in> set (matches (Cls p) ((x # w) @ s) (reset (groups (Cls p)) c))"
    using Cons.prems by (simp add: in_matches_Cls reset_def)
  ultimately show ?case by (subst in_matches_Star) fastforce
qed

lemma plus_cls_all:
  "w \<noteq> [] \<Longrightarrow> \<forall>x\<in>set w. p x \<Longrightarrow> (s, c) \<in> set (matches (Plus (Cls p)) (w @ s) c)"
proof -
  assume a: "w \<noteq> []" "\<forall>x\<in>set w. p x"
  then obtain x w' where w: "w = x # w'" by (cases w) auto
  have "(s, c) \<in> set (matches (Star (Cls p)) (w' @ s) c)" using a w star_cls_all by simp
  moreover have "(w' @ s, c) \<in> set (matches (Cls p) (w @ s) (reset (groups (Cls p)) c))"
    using a w by (simp add: in_matches_Cls reset_def)
  ultimately show ?thesis unfolding in_matches_Plus by blast
qed

subsection \<open>The version pattern\<close>

lemma reset_Nil [simp]: "reset [] c = c"
  by (simp add: reset_def)

lemma matches_no_groups:
  "(s', c') \<in> set (matches r s c) \<Longrightarrow> groups r = [] \<Longrightarrow> c' = c"
proof (induction r s c arbitrary: s' c' rule: matches.induct)
  case (1 x s cs)
  then show ?case by (auto simp: in_matches_Chr)
next
  case (2 p s cs)
  then show ?case by (auto simp: in_matches_Cls)
next
  case (3 a b s cs)
  from "3.prems" obtain s1 c1 where
    a: "(s1, c1) \<in> set (matches a s cs)" and b: "(s', c') \<in> set (matches b s1 c1)"
    unfolding in_matches_Seq by blast
  have "c1 = cs" using "3.IH"(1) [OF a] "3.prems"(2) by simp
  moreover have "c' = c1" using "3.IH"(2) [OF a refl b] "3.prems"(2) by simp
  ultimately show ?case by simp
next
  case (4 a b s cs)
  then show ?case unfolding in_matches_Alt by fastforce
next
  case (5 a s cs)
  from "5.prems" show ?case unfolding in_matches_Opt using "5.IH" by fastforce
next
  case (6 a s cs)
  from "6.prems"(1) consider
    (iter) s1 c1 where "(s1, c1) \<in> set (matches a s (reset (groups a) cs))" "length s1 < length s"
      "(s', c') \<in> set (matches (Star a) s1 c1)"
    | (stop) "s' = s" "c' = cs"
    by (subst (asm) in_matches_Star) blast
  then show ?case
  proof cases
    case iter
    have mem: "(s1, c1) \<in> set (filter (\<lambda>(s1, c1). length s1 < length s)
                                  (matches a s (reset (groups a) cs)))"
      using iter by simp
    have "c1 = cs" using "6.IH"(1) [OF iter(1)] "6.prems"(2) by simp
    moreover have "c' = c1" using "6.IH"(2) [OF mem refl iter(3)] "6.prems"(2) by simp
    ultimately show ?thesis by simp
  next
    case stop
    then show ?thesis by simp
  qed
next
  case (7 a s cs)
  from "7.prems" obtain s1 c1 where
    a: "(s1, c1) \<in> set (matches a s (reset (groups a) cs))"
    and b: "(s', c') \<in> set (matches (Star a) s1 c1)"
    unfolding in_matches_Plus by blast
  have "c1 = cs" using "7.IH"(1) [OF a] "7.prems"(2) by simp
  moreover have "c' = c1" using "7.IH"(2) [OF a refl b] "7.prems"(2) by simp
  ultimately show ?case by simp
next
  case (8 n' a s cs)
  then show ?case by simp
qed

lemma in_matches_Grp_plain:
  assumes "(s', c') \<in> set (matches (Grp n a) s c)" and "groups a = []"
  shows "\<exists>w. s = w @ s' \<and> set w \<subseteq> alphabet a \<and> (s', c) \<in> set (matches a s c)
             \<and> c' = capture n w c"
proof -
  from assms(1) obtain c1 where
    a: "(s', c1) \<in> set (matches a s c)"
    and c': "c' = capture n (take (length s - length s') s) c1"
    unfolding in_matches_Grp by blast
  have c1: "c1 = c" using matches_no_groups [OF a assms(2)] .
  from matches_consumed [OF a] obtain w where w: "s = w @ s'" "set w \<subseteq> alphabet a" by blast
  then have "take (length s - length s') s = w" by simp
  then show ?thesis using a c' c1 w by blast
qed

lemma numeric_rx_groups [simp]: "groups numeric_rx = []"
  by (simp add: numeric_rx_def)

lemma prerelease_rx_groups [simp]: "groups prerelease_rx = []"
  by (simp add: prerelease_rx_def prerelease_id_rx_def)

lemma build_rx_groups [simp]: "groups build_rx = []"
  by (simp add: build_rx_def)

lemma numeric_rx_numeral:
  assumes "(s', c') \<in> set (matches numeric_rx s c)"
  shows "\<exists>w. s = w @ s' \<and> decimal_numeral w"
proof -
  from assms consider
    (zero) "s = CHR ''0'' # s'"
    | (pos) x s1 c1 where "s = x # s1" "nonzero_digit x"
        "(s', c') \<in> set (matches (Star (Cls is_digit)) s1 c1)"
    unfolding numeric_rx_def in_matches_Alt in_matches_Seq in_matches_Chr in_matches_Cls by blast
  then show ?thesis
  proof cases
    case zero
    then show ?thesis by (intro exI [of _ "''0''"]) (simp add: decimal_numeral_def)
  next
    case pos
    from matches_consumed [OF pos(3)] obtain w where
      w: "s1 = w @ s'" "set w \<subseteq> alphabet (Star (Cls is_digit))" by blast
    then have "\<forall>c\<in>set w. is_digit c" by auto
    then show ?thesis
      using pos w by (intro exI [of _ "x # w"]) (auto simp: decimal_numeral_def)
  qed
qed

lemma grp_numeric_rx:
  assumes "(s', c') \<in> set (matches (Grp n numeric_rx) s c)"
  shows "\<exists>w. s = w @ s' \<and> decimal_numeral w \<and> c' = capture n w c"
proof -
  from in_matches_Grp_plain [OF assms numeric_rx_groups] obtain w where
    w: "s = w @ s'" "(s', c) \<in> set (matches numeric_rx s c)" "c' = capture n w c" by blast
  from numeric_rx_numeral [OF w(2)] obtain w' where w': "s = w' @ s'" "decimal_numeral w'" by blast
  have "w' = w" using w(1) w'(1) by simp
  then show ?thesis using w w' by blast
qed

lemma prerelease_id_rx_shorter:
  assumes "(s', c') \<in> set (matches prerelease_id_rx s c)"
  shows "length s' < length s"
proof -
  from assms consider
    (zero) "s = CHR ''0'' # s'"
    | (num) x s1 c1 where "s = x # s1" "(s', c') \<in> set (matches (Star (Cls is_digit)) s1 c1)"
    | (alnum) s1 c1 x s2 c2 where "(s1, c1) \<in> set (matches (Star (Cls is_digit)) s c)"
        "s1 = x # s2" "(s', c') \<in> set (matches (Star (Cls alnum_or_dash)) s2 c2)"
    unfolding prerelease_id_rx_def alts.simps seqs.simps
      in_matches_Alt in_matches_Seq in_matches_Chr in_matches_Cls by blast
  then show ?thesis
  proof cases
    case zero
    then show ?thesis by simp
  next
    case num
    then show ?thesis using matches_length [OF num(2)] by simp
  next
    case alnum
    then show ?thesis using matches_length [OF alnum(1)] matches_length [OF alnum(3)] by simp
  qed
qed

lemma prerelease_rx_shorter:
  assumes "(s', c') \<in> set (matches prerelease_rx s c)"
  shows "length s' < length s"
proof -
  from assms obtain s1 c1 where
    a: "(s1, c1) \<in> set (matches prerelease_id_rx s c)"
    and b: "(s', c') \<in> set (matches (Star (Seq (Chr CHR ''.'') prerelease_id_rx)) s1 c1)"
    unfolding prerelease_rx_def in_matches_Seq by blast
  show ?thesis using prerelease_id_rx_shorter [OF a] matches_length [OF b] by simp
qed

lemma prerelease_alphabet:
  "c \<in> alphabet prerelease_rx \<Longrightarrow> c \<noteq> CHR ''+'' \<and> c \<noteq> CHR ''$''"
  unfolding prerelease_rx_def prerelease_id_rx_def
  by (auto simp: nonzero_digit_def nonzero_digit_chars_def is_digit_def digit_chars_def
        letter_or_dash_def alnum_or_dash_def lower_chars_def upper_chars_def)

text \<open>What a match of the version pattern says about the string and the groups.\<close>

lemma semantic_version_match:
  assumes "match s SEMANTIC_VERSION_REGEX = Some m"
  shows "\<exists>pfx w1 w2 w3 pre bld.
           s = pfx @ w1 @ ''.'' @ w2 @ ''.'' @ w3 @ pre @ bld
           \<and> (pfx = [] \<or> pfx = ''v'')
           \<and> decimal_numeral w1 \<and> decimal_numeral w2 \<and> decimal_numeral w3
           \<and> grp m 1 = Some w1 \<and> grp m 2 = Some w2 \<and> grp m 3 = Some w3
           \<and> ((pre = [] \<and> grp m 4 = None)
               \<or> (\<exists>p. pre = ''-'' @ p \<and> p \<noteq> [] \<and> grp m 4 = Some p
                       \<and> CHR ''+'' \<notin> set p \<and> CHR ''$'' \<notin> set p))
           \<and> (bld = [] \<or> (\<exists>b. bld = ''+'' @ b))"
proof -
  have "([], m) \<in> set (matches SEMANTIC_VERSION_REGEX s [])"
    using match_Some_in [OF assms] .
  then obtain s1 c1 s2 c2 s3 c3 s4 c4 s5 c5 s6 c6 s7 c7 where
    m1: "(s1, c1) \<in> set (matches (Opt (Chr CHR ''v'')) s [])"
    and m2: "(s2, c2) \<in> set (matches (Grp 1 numeric_rx) s1 c1)"
    and m3: "(s3, c3) \<in> set (matches (Chr CHR ''.'') s2 c2)"
    and m4: "(s4, c4) \<in> set (matches (Grp 2 numeric_rx) s3 c3)"
    and m5: "(s5, c5) \<in> set (matches (Chr CHR ''.'') s4 c4)"
    and m6: "(s6, c6) \<in> set (matches (Grp 3 numeric_rx) s5 c5)"
    and m7: "(s7, c7) \<in> set (matches (Opt (Seq (Chr CHR ''-'') (Grp 4 prerelease_rx))) s6 c6)"
    and m8: "([], m) \<in> set (matches (Opt (Seq (Chr CHR ''+'') (Grp 5 build_rx))) s7 c7)"
    unfolding SEMANTIC_VERSION_REGEX_def seqs.simps in_matches_Seq by blast
  from m1 obtain pfx where pfx: "s = pfx @ s1" "pfx = [] \<or> pfx = ''v''" "c1 = []"
    unfolding in_matches_Opt in_matches_Chr by auto
  from grp_numeric_rx [OF m2] obtain w1 where
    w1: "s1 = w1 @ s2" "decimal_numeral w1" "c2 = capture 1 w1 c1" by blast
  from m3 have d1: "s2 = ''.'' @ s3" "c3 = c2" unfolding in_matches_Chr by auto
  from grp_numeric_rx [OF m4] obtain w2 where
    w2: "s3 = w2 @ s4" "decimal_numeral w2" "c4 = capture 2 w2 c3" by blast
  from m5 have d2: "s4 = ''.'' @ s5" "c5 = c4" unfolding in_matches_Chr by auto
  from grp_numeric_rx [OF m6] obtain w3 where
    w3: "s5 = w3 @ s6" "decimal_numeral w3" "c6 = capture 3 w3 c5" by blast
  have g6: "grp c6 1 = Some w1" "grp c6 2 = Some w2" "grp c6 3 = Some w3" "grp c6 4 = None"
    using pfx(3) w1(3) d1(2) w2(3) d2(2) w3(3) by simp_all
  obtain pre where pre: "s6 = pre @ s7"
    "grp c7 1 = Some w1" "grp c7 2 = Some w2" "grp c7 3 = Some w3"
    "(pre = [] \<and> grp c7 4 = None)
      \<or> (\<exists>p. pre = ''-'' @ p \<and> p \<noteq> [] \<and> grp c7 4 = Some p
             \<and> CHR ''+'' \<notin> set p \<and> CHR ''$'' \<notin> set p)"
  proof -
    from m7 consider
      (skip) "s7 = s6" "c7 = c6"
      | (take) t where "s6 = CHR ''-'' # t"
          "(s7, c7) \<in> set (matches (Grp 4 prerelease_rx) t
                              (reset (groups (Seq (Chr CHR ''-'') (Grp 4 prerelease_rx))) c6))"
      unfolding in_matches_Opt in_matches_Seq in_matches_Chr by blast
    then show ?thesis
    proof cases
      case skip
      then show ?thesis using g6 by (intro that [of "[]"]) auto
    next
      case take
      let ?c = "reset (groups (Seq (Chr CHR ''-'') (Grp 4 prerelease_rx))) c6"
      from in_matches_Grp_plain [OF take(2) prerelease_rx_groups] obtain p where
        p: "t = p @ s7" "set p \<subseteq> alphabet prerelease_rx"
           "(s7, ?c) \<in> set (matches prerelease_rx t ?c)" "c7 = capture 4 p ?c" by blast
      have "p \<noteq> []" using prerelease_rx_shorter [OF p(3)] p(1) by auto
      moreover have "CHR ''+'' \<notin> set p \<and> CHR ''$'' \<notin> set p"
        using p(2) prerelease_alphabet by blast
      ultimately show ?thesis
        using take(1) p(1) p(4) g6 by (intro that [of "''-'' @ p"]) auto
    qed
  qed
  obtain bld where bld: "s7 = bld" "bld = [] \<or> (\<exists>b. bld = ''+'' @ b)"
    "grp m 1 = grp c7 1" "grp m 2 = grp c7 2" "grp m 3 = grp c7 3" "grp m 4 = grp c7 4"
  proof -
    from m8 consider
      (skip) "s7 = []" "m = c7"
      | (take) t where "s7 = CHR ''+'' # t"
          "([], m) \<in> set (matches (Grp 5 build_rx) t
                              (reset (groups (Seq (Chr CHR ''+'') (Grp 5 build_rx))) c7))"
      unfolding in_matches_Opt in_matches_Seq in_matches_Chr by blast
    then show ?thesis
    proof cases
      case skip
      then show ?thesis by (intro that [of "[]"]) auto
    next
      case take
      let ?c = "reset (groups (Seq (Chr CHR ''+'') (Grp 5 build_rx))) c7"
      from in_matches_Grp_plain [OF take(2) build_rx_groups] obtain b where
        b: "m = capture 5 b ?c" by blast
      show ?thesis using take(1) b by (intro that [of s7]) auto
    qed
  qed
  have "s = pfx @ w1 @ ''.'' @ w2 @ ''.'' @ w3 @ pre @ bld"
    using pfx(1) w1(1) d1(1) w2(1) d2(1) w3(1) pre(1) bld(1) by simp
  then show ?thesis
    using pfx(2) w1(2) w2(2) w3(2) pre(2-5) bld(2-6) by (intro exI conjI) auto
qed



lemma new_SemanticVersion_Inr:
  assumes "new_SemanticVersion s = Inr v"
  shows "\<exists>pfx w1 w2 w3 pre bld.
           s = pfx @ w1 @ ''.'' @ w2 @ ''.'' @ w3 @ pre @ bld
           \<and> (pfx = [] \<or> pfx = ''v'')
           \<and> decimal_numeral w1 \<and> decimal_numeral w2 \<and> decimal_numeral w3
           \<and> major v = parseInt w1 \<and> minor v = parseInt w2 \<and> patch v = parseInt w3
           \<and> ((pre = [] \<and> prerelease v = None)
               \<or> (\<exists>p. pre = ''-'' @ p \<and> p \<noteq> [] \<and> prerelease v = Some p
                       \<and> CHR ''+'' \<notin> set p \<and> CHR ''$'' \<notin> set p))
           \<and> (bld = [] \<or> (\<exists>b. bld = ''+'' @ b))"
proof -
  from assms obtain m where m: "match s SEMANTIC_VERSION_REGEX = Some m"
    and v: "v = \<lparr> major = parseInt (case grp m 1 of None \<Rightarrow> ''undefined'' | Some w \<Rightarrow> w),
                  minor = parseInt (case grp m 2 of None \<Rightarrow> ''undefined'' | Some w \<Rightarrow> w),
                  patch = parseInt (case grp m 3 of None \<Rightarrow> ''undefined'' | Some w \<Rightarrow> w),
                  prerelease = (if truthy (grp m 4) then grp m 4 else None) \<rparr>"
    unfolding new_SemanticVersion_def by (auto split: option.splits)
  from semantic_version_match [OF m] obtain pfx w1 w2 w3 pre bld where
    d: "s = pfx @ w1 @ ''.'' @ w2 @ ''.'' @ w3 @ pre @ bld"
       "pfx = [] \<or> pfx = ''v''"
       "decimal_numeral w1" "decimal_numeral w2" "decimal_numeral w3"
       "grp m 1 = Some w1" "grp m 2 = Some w2" "grp m 3 = Some w3"
       "(pre = [] \<and> grp m 4 = None)
         \<or> (\<exists>p. pre = ''-'' @ p \<and> p \<noteq> [] \<and> grp m 4 = Some p
               \<and> CHR ''+'' \<notin> set p \<and> CHR ''$'' \<notin> set p)"
       "bld = [] \<or> (\<exists>b. bld = ''+'' @ b)"
    by blast
  have "major v = parseInt w1" "minor v = parseInt w2" "patch v = parseInt w3"
    using v d(6-8) by simp_all
  moreover have "(pre = [] \<and> prerelease v = None)
               \<or> (\<exists>p. pre = ''-'' @ p \<and> p \<noteq> [] \<and> prerelease v = Some p
                       \<and> CHR ''+'' \<notin> set p \<and> CHR ''$'' \<notin> set p)"
    using v d(9) by auto
  ultimately show ?thesis using d(1-5) d(10) by blast
qed




lemma new_SemanticVersion_no_dollar:
  "new_SemanticVersion s = Inr v \<Longrightarrow> \<forall>p. prerelease v = Some p \<longrightarrow> CHR ''$'' \<notin> set p"
  using new_SemanticVersion_Inr [of s v] by auto

subsection \<open>The commit classifier\<close>

lemma in_matches_SeqI:
  "(s1, c1) \<in> set (matches a s c) \<Longrightarrow> (s', c') \<in> set (matches b s1 c1) \<Longrightarrow>
   (s', c') \<in> set (matches (Seq a b) s c)"
  unfolding in_matches_Seq by blast

lemma in_matches_Star_stop: "(s, c) \<in> set (matches (Star a) s c)"
  by (subst in_matches_Star) simp

lemma in_matches_Opt_skip: "(s, c) \<in> set (matches (Opt a) s c)"
  unfolding in_matches_Opt by simp

lemma commit_body_groups: "3 \<notin> set (groups commit_body_rx)"
  by (simp add: commit_body_rx_def)

lemma commit_body_subject:
  assumes "subject \<noteq> []" and "\<forall>c\<in>set subject. not_crlf c"
  shows "([], c) \<in> set (matches commit_body_rx subject c)"
proof -
  have "([], c) \<in> set (matches (Plus (Cls not_crlf)) (subject @ []) c)"
    using assms by (rule plus_cls_all)
  then have "([], c) \<in> set (matches (Plus (Cls not_crlf)) subject c)" by simp
  then show ?thesis
    unfolding commit_body_rx_def seqs.simps
    by (intro in_matches_SeqI [where ?s1.0 = "[]" and ?c1.0 = c]
          in_matches_Star_stop in_matches_Opt_skip)
qed

lemma bang_head_any:
  "(s', m) \<in> set (matches
      (seqs [
         Grp 1 (alts [lit ''build'', lit ''chore'', lit ''ci'', lit ''docs'', lit ''feat'',
                      lit ''fix'', lit ''perf'', lit ''refactor'', lit ''revert'', lit ''style'',
                      lit ''test'']),
         Opt (Grp 2 (seqs [Chr CHR ''('', Plus (Cls word_or_dash), Chr CHR '')''])),
         Opt (Grp 3 (Chr CHR ''!'')),
         Chr CHR '':'',
         Chr CHR '' '',
         rest]) (''feat!: '' @ subject) []) \<longleftrightarrow>
   (s', m) \<in> set (matches rest subject (capture 3 ''!'' (capture 1 ''feat'' [])))"
  unfolding seqs.simps alts.simps lit_def
  apply (auto simp add: in_matches reset_def capture_def)
  apply (rule exI [of _ "CHR '':'' # CHR '' '' # subject"])
  apply simp
  done

lemma bang_head:
  "([], m) \<in> set (matches CONVENTIONAL_COMMIT_REGEX (''feat!: '' @ subject) []) \<longleftrightarrow>
   ([], m) \<in> set (matches commit_body_rx subject (capture 3 ''!'' (capture 1 ''feat'' [])))"
  unfolding CONVENTIONAL_COMMIT_REGEX_def by (rule bang_head_any)

lemma bang_message_major:
  assumes "match (''feat!: '' @ rest) CONVENTIONAL_COMMIT_REGEX \<noteq> None"
  shows "parseReleaseTypeFromCommitMessage (''feat!: '' @ rest) = MAJOR"
proof -
  let ?msg = "''feat!: '' @ rest"
  let ?c = "capture 3 ''!'' (capture 1 ''feat'' [])"
  from assms obtain m where m: "match ?msg CONVENTIONAL_COMMIT_REGEX = Some m" by auto
  have "([], m) \<in> set (matches commit_body_rx rest ?c)"
    using match_Some_in [OF m] unfolding bang_head .
  then have "grp m 3 = grp ?c 3" using commit_body_groups by (rule matches_frame)
  then have "truthy (grp m 3)" by simp
  then show ?thesis
    unfolding parseReleaseTypeFromCommitMessage_def m by (simp add: Let_def)
qed

lemma bang_subject_conforms:
  assumes "subject \<noteq> []" and "\<forall>c\<in>set subject. not_crlf c"
  shows "match (''feat!: '' @ subject) CONVENTIONAL_COMMIT_REGEX \<noteq> None"
proof -
  let ?c = "capture 3 ''!'' (capture 1 ''feat'' [])"
  have "([], ?c) \<in> set (matches CONVENTIONAL_COMMIT_REGEX (''feat!: '' @ subject) [])"
    unfolding bang_head using assms by (rule commit_body_subject)
  then show ?thesis using match_in_Some by fastforce
qed

lemma more_severe_cases:
  "more_severe a b = MAJOR \<longleftrightarrow> a = MAJOR \<or> b = MAJOR"
  by (cases a; cases b) (simp_all add: more_severe_def)

lemma releaseType_loop_max:
  "releaseType_loop b ms = more_severe b (max_severity (map parseReleaseTypeFromCommitMessage ms))"
proof (induction ms arbitrary: b)
  case Nil
  show ?case by (cases b) (simp_all add: max_severity_def more_severe_def)
next
  case (Cons m ms)
  let ?r = "parseReleaseTypeFromCommitMessage m"
  let ?rest = "max_severity (map parseReleaseTypeFromCommitMessage ms)"
  have unfold: "max_severity (map parseReleaseTypeFromCommitMessage (m # ms)) = more_severe ?r ?rest"
    by (simp add: max_severity_def)
  show ?case
    unfolding unfold
    by (cases b; cases ?r; cases ?rest) (simp_all add: Cons.IH Let_def more_severe_def)
qed

lemma max_severity_major:
  "MAJOR \<in> set ts \<Longrightarrow> max_severity ts = MAJOR"
  by (induction ts) (auto simp: max_severity_def more_severe_cases)

text \<open>
  C7. For every list of commit messages, \<open>releaseTypeFromCommitMessages\<close> returns the most
  severe of the release types of its messages under the order major, minor, patch, none (none
  when the list is empty); hence a list that holds, at any place, a message \<open>feat!: ...\<close> that
  conforms to the grammar has the result major; and every one-line message \<open>feat!: subject\<close>
  conforms.
\<close>

theorem releaseTypeFromCommitMessages_max:
  "releaseTypeFromCommitMessages ms = max_severity (map parseReleaseTypeFromCommitMessage ms)
   \<and> (\<forall>rest before after.
        match (''feat!: '' @ rest) CONVENTIONAL_COMMIT_REGEX \<noteq> None \<longrightarrow>
        releaseTypeFromCommitMessages (before @ [''feat!: '' @ rest] @ after) = MAJOR)
   \<and> (\<forall>subject.
        subject \<noteq> [] \<and> (\<forall>c\<in>set subject. not_crlf c) \<longrightarrow>
        match (''feat!: '' @ subject) CONVENTIONAL_COMMIT_REGEX \<noteq> None)"
proof (intro conjI allI impI)
  show max: "releaseTypeFromCommitMessages ms = max_severity (map parseReleaseTypeFromCommitMessage ms)"
    for ms
    unfolding releaseTypeFromCommitMessages_def releaseType_loop_max
    by (cases "max_severity (map parseReleaseTypeFromCommitMessage ms)")
      (simp_all add: more_severe_def)
  fix rest before after
  assume "match (''feat!: '' @ rest) CONVENTIONAL_COMMIT_REGEX \<noteq> None"
  then have "parseReleaseTypeFromCommitMessage (''feat!: '' @ rest) = MAJOR"
    by (rule bang_message_major)
  then have "MAJOR \<in> set (map parseReleaseTypeFromCommitMessage
                            (before @ [''feat!: '' @ rest] @ after))"
    by (simp add: image_iff)
  then show "releaseTypeFromCommitMessages (before @ [''feat!: '' @ rest] @ after) = MAJOR"
    unfolding max by (rule max_severity_major)
next
  fix subject
  assume "subject \<noteq> [] \<and> (\<forall>c\<in>set subject. not_crlf c)"
  then show "match (''feat!: '' @ subject) CONVENTIONAL_COMMIT_REGEX \<noteq> None"
    using bang_subject_conforms by blast
qed

theorem releaseTypeFromCommitMessages_max_witness:
  "releaseTypeFromCommitMessages [''fix: a'', ''feat!: drop the old API'', ''chore: b''] = MAJOR"
proof -
  have s: "''drop the old API'' \<noteq> [] \<and> (\<forall>c\<in>set ''drop the old API''. not_crlf c)"
    by (simp add: not_crlf_def)
  have c: "match (''feat!: '' @ ''drop the old API'') CONVENTIONAL_COMMIT_REGEX \<noteq> None"
    using releaseTypeFromCommitMessages_max [of "[]"] s by blast
  have "releaseTypeFromCommitMessages
          ([''fix: a''] @ [''feat!: '' @ ''drop the old API''] @ [''chore: b'']) = MAJOR"
    using releaseTypeFromCommitMessages_max [of "[]"] c by blast
  then show ?thesis by simp
qed

subsection \<open>The release branch name\<close>

lemma set_join: "set (join sep xs) \<subseteq> set sep \<union> \<Union>(set ` set xs)"
  by (induction sep xs rule: join.induct) auto

lemma set_split: "\<Union>(set ` set (split sep s)) \<subseteq> set s"
proof (induction s)
  case Nil
  show ?case by simp
next
  case (Cons c s)
  obtain p ps where ps: "split sep s = p # ps"
    using split_nonempty [of sep s] by (cases "split sep s") auto
  show ?case using Cons ps by auto
qed

text \<open>No version the program makes has a dollar sign in its prerelease: the constructor takes
  it from the pattern, and the bump operations keep it so.\<close>

lemma bumpMajor_no_dollar: "\<forall>p. prerelease (bumpMajor v) = Some p \<longrightarrow> CHR ''$'' \<notin> set p"
  by (auto simp: bumpMajor_def)

lemma bumpMinor_no_dollar: "\<forall>p. prerelease (bumpMinor v) = Some p \<longrightarrow> CHR ''$'' \<notin> set p"
  by (auto simp: bumpMinor_def)

lemma bumpPatch_no_dollar:
  assumes "\<forall>p. prerelease v = Some p \<longrightarrow> CHR ''$'' \<notin> set p"
  shows "\<forall>p. prerelease (bumpPatch v) = Some p \<longrightarrow> CHR ''$'' \<notin> set p"
proof (cases "truthy (prerelease v)")
  case False
  then show ?thesis by (auto simp: bumpPatch_def)
next
  case True
  then obtain pre where pre: "prerelease v = Some pre" by (cases "prerelease v") auto
  then have nd: "CHR ''$'' \<notin> set pre" using assms by simp
  let ?parts = "split CHR ''.'' pre"
  have parts: "\<forall>x\<in>set ?parts. CHR ''$'' \<notin> set x" using set_split [of "CHR ''.''" pre] nd by auto
  have "CHR ''$'' \<notin> set (join ''.'' (?parts [i := number_toString n]))" for i n
  proof -
    have "\<forall>x\<in>set (?parts [i := number_toString n]). CHR ''$'' \<notin> set x"
      using parts number_toString_no_dollar [of n] set_update_subset_insert [of ?parts i]
      by blast
    then show ?thesis using set_join [of "''.''" "?parts [i := number_toString n]"] by auto
  qed
  then show ?thesis using True pre nd by (auto simp: bumpPatch_def Let_def)
qed

text \<open>
  C10. For every template and every version, \<open>generateReleaseBranchName\<close> substitutes the first
  occurrence of \<open>${major}\<close>, then of \<open>${minor}\<close>, of \<open>${patch}\<close> and of \<open>${prerelease}\<close>, and
  leaves every later occurrence as it is; an absent prerelease is substituted as the empty
  string. The version is one whose prerelease has no dollar sign, as every version of the
  program is.
\<close>

theorem generateReleaseBranchName_first_only:
  "(\<forall>p. prerelease version = Some p \<longrightarrow> CHR ''$'' \<notin> set p) \<longrightarrow>
     generateReleaseBranchName template version =
       replace_first
         (replace_first
           (replace_first
             (replace_first template ''${major}'' (number_toString (major version)))
             ''${minor}'' (number_toString (minor version)))
           ''${patch}'' (number_toString (patch version)))
         ''${prerelease}'' (case prerelease version of None \<Rightarrow> '''' | Some p \<Rightarrow> p)"
proof
  assume a: "\<forall>p. prerelease version = Some p \<longrightarrow> CHR ''$'' \<notin> set p"
  have pre: "(if truthy (prerelease version) then the (prerelease version) else '''')
             = (case prerelease version of None \<Rightarrow> '''' | Some p \<Rightarrow> p)"
    by (cases "prerelease version") auto
  have nd: "CHR ''$'' \<notin> set (case prerelease version of None \<Rightarrow> '''' | Some p \<Rightarrow> p)"
    using a by (cases "prerelease version") auto
  show "generateReleaseBranchName template version =
       replace_first
         (replace_first
           (replace_first
             (replace_first template ''${major}'' (number_toString (major version)))
             ''${minor}'' (number_toString (minor version)))
           ''${patch}'' (number_toString (patch version)))
         ''${prerelease}'' (case prerelease version of None \<Rightarrow> '''' | Some p \<Rightarrow> p)"
    unfolding generateReleaseBranchName_def pre
    by (simp only: replace_replace_first [OF number_toString_no_dollar]
          replace_replace_first [OF nd])
qed



theorem generateReleaseBranchName_first_only_witness:
  "generateReleaseBranchName ''release-${major}.${minor}.x+${major}''
     \<lparr> major = Num 1, minor = Num 0, patch = Num 0, prerelease = Some ''rc.1'' \<rparr>
     = ''release-1.0.x+${major}''
   \<and> generateReleaseBranchName ''r${prerelease}-${patch}''
     \<lparr> major = Num 2, minor = Num 3, patch = Num 4, prerelease = None \<rparr>
     = ''r-4''"
proof -
  let ?v = "\<lparr> major = Num 1, minor = Num 0, patch = Num 0, prerelease = Some ''rc.1'' \<rparr>"
  let ?w = "\<lparr> major = Num 2, minor = Num 3, patch = Num 4, prerelease = None \<rparr>"
  have a: "replace_first
         (replace_first
           (replace_first
             (replace_first ''release-${major}.${minor}.x+${major}'' ''${major}'' (number_toString (major ?v)))
             ''${minor}'' (number_toString (minor ?v)))
           ''${patch}'' (number_toString (patch ?v)))
         ''${prerelease}'' (case prerelease ?v of None \<Rightarrow> '''' | Some p \<Rightarrow> p)
       = ''release-1.0.x+${major}''"
    by code_simp
  have b: "replace_first
         (replace_first
           (replace_first
             (replace_first ''r${prerelease}-${patch}'' ''${major}'' (number_toString (major ?w)))
             ''${minor}'' (number_toString (minor ?w)))
           ''${patch}'' (number_toString (patch ?w)))
         ''${prerelease}'' (case prerelease ?w of None \<Rightarrow> '''' | Some p \<Rightarrow> p)
       = ''r-4''"
    by code_simp
  have "\<forall>p. prerelease ?v = Some p \<longrightarrow> CHR ''$'' \<notin> set p" by simp
  then have "generateReleaseBranchName ''release-${major}.${minor}.x+${major}'' ?v
             = ''release-1.0.x+${major}''"
    using generateReleaseBranchName_first_only [of ?v "''release-${major}.${minor}.x+${major}''"] a
    by (simp only:)
  moreover have "\<forall>p. prerelease ?w = Some p \<longrightarrow> CHR ''$'' \<notin> set p" by simp
  then have "generateReleaseBranchName ''r${prerelease}-${patch}'' ?w = ''r-4''"
    using generateReleaseBranchName_first_only [of ?w "''r${prerelease}-${patch}''"] b
    by (simp only:)
  ultimately show ?thesis by simp
qed

subsection \<open>A breaking change that is not the last paragraph\<close>

text \<open>
  C8. The classifier reads the breaking-change marker from group 4 of the match, which holds
  the last repetition of the paragraph group only: a message whose marker paragraph is
  followed by a further paragraph is a fix or a feature like any other, while the same
  marker in the last paragraph gives major.
\<close>

theorem breaking_change_before_last_paragraph:
  "parseReleaseTypeFromCommitMessage
     (''fix: a'' @ [CHR 0x0A, CHR 0x0A] @ ''BREAKING CHANGE: b''
        @ [CHR 0x0A, CHR 0x0A] @ ''Refs: 12'') = PATCH
   \<and> parseReleaseTypeFromCommitMessage
     (''fix: a'' @ [CHR 0x0A, CHR 0x0A] @ ''BREAKING CHANGE: b'') = MAJOR"
  by code_simp

section \<open>The store and the two actions\<close>



lemma filter_id_map: "length (filter id (map f xs)) = length (filter f xs)"
  by (induction xs) auto

lemma publish_result:
  "publish cfg g out = (r, g') \<Longrightarrow> g' = g \<and> (r = Inr out \<or> r = Inl PublishFailed)"
  by (auto simp: publish_def gitSync_def split: if_splits)


lemma git_tag_Inl: "git_tag g name = (Inl e, g') \<Longrightarrow> g' = g \<and> e = GitError"
  by (auto simp: git_tag_def split: option.splits if_splits)



text \<open>The checks of the release action, in their order.\<close>

lemma run_release_checks:
  assumes "isReleaseBranch cur (releaseBranchRegex cfg)" and "getTagsAtHEAD g = Inr ts"
  shows "run_release cfg g cur =
     (if ts = [] then (Inl NoTagsAtHEAD, g)
      else if filter is_candidate_tag ts = [] then (Inl NoReleaseCandidateAtHEAD, g)
      else if length (filter is_candidate_tag ts) > 1
           then (Inl (MultipleReleaseCandidatesAtHEAD (join '', '' ts)), g)
      else if filter is_stable_tag ts \<noteq> [] then (Inl (ReleaseTagsAtHEAD (join '', '' ts)), g)
      else case new_SemanticVersion (hd (filter is_candidate_tag ts)) of
             Inl e \<Rightarrow> (Inl e, g)
           | Inr version \<Rightarrow>
               (case makeRelease_git g (hd (filter is_candidate_tag ts))
                       (toString (makeRelease version)) of
                  (Inl e, g1) \<Rightarrow> (Inl e, g1)
                | (Inr u, g1) \<Rightarrow>
                    publish cfg g1
                      \<lparr> next_version = toString (makeRelease version),
                        previous_version = toString version,
                        previous_stable_version = getLatestStableTag g \<rparr>))"
  unfolding run_release_def
  using assms
  by (cases "filter is_candidate_tag ts")
     (auto simp: filter_id_map Let_def split: sum.splits prod.splits)

subsection \<open>The release action: what stands at HEAD\<close>

text \<open>
  C3. For every release run on a release branch, the tags at HEAD are checked in this order:
  with no tag at HEAD the run fails with the empty-HEAD error; otherwise with no candidate
  among them it fails with \<open>NoCandidateAtHEAD\<close>; with more than one candidate it fails with
  \<open>AmbiguousCandidates\<close>; and with exactly one candidate and a stable tag among them it fails
  with \<open>AlreadyReleased\<close>. The last two messages list all the tags at HEAD, in the order the
  store lists them. The store is as it was.
\<close>

theorem release_head_checks:
  "action cfg = ''release'' \<and> isReleaseBranch (getCurrentBranch g) (releaseBranchRegex cfg)
     \<and> getTagsAtHEAD g = Inr ts \<longrightarrow>
   (ts = [] \<longrightarrow> run cfg g = (Inl NoTagsAtHEAD, g))
   \<and> (ts \<noteq> [] \<and> filter is_candidate_tag ts = [] \<longrightarrow>
        run cfg g = (Inl NoReleaseCandidateAtHEAD, g))
   \<and> (length (filter is_candidate_tag ts) > 1 \<longrightarrow>
        run cfg g = (Inl (MultipleReleaseCandidatesAtHEAD (join '', '' ts)), g))
   \<and> (length (filter is_candidate_tag ts) = 1 \<and> filter is_stable_tag ts \<noteq> [] \<longrightarrow>
        run cfg g = (Inl (ReleaseTagsAtHEAD (join '', '' ts)), g))"
proof (intro impI)
  assume a: "action cfg = ''release'' \<and> isReleaseBranch (getCurrentBranch g) (releaseBranchRegex cfg)
     \<and> getTagsAtHEAD g = Inr ts"
  then have run: "run cfg g = run_release cfg g (getCurrentBranch g)"
    by (simp add: run_def)
  have checks: "run_release cfg g (getCurrentBranch g) =
     (if ts = [] then (Inl NoTagsAtHEAD, g)
      else if filter is_candidate_tag ts = [] then (Inl NoReleaseCandidateAtHEAD, g)
      else if length (filter is_candidate_tag ts) > 1
           then (Inl (MultipleReleaseCandidatesAtHEAD (join '', '' ts)), g)
      else if filter is_stable_tag ts \<noteq> [] then (Inl (ReleaseTagsAtHEAD (join '', '' ts)), g)
      else case new_SemanticVersion (hd (filter is_candidate_tag ts)) of
             Inl e \<Rightarrow> (Inl e, g)
           | Inr version \<Rightarrow>
               (case makeRelease_git g (hd (filter is_candidate_tag ts))
                       (toString (makeRelease version)) of
                  (Inl e, g1) \<Rightarrow> (Inl e, g1)
                | (Inr u, g1) \<Rightarrow>
                    publish cfg g1
                      \<lparr> next_version = toString (makeRelease version),
                        previous_version = toString version,
                        previous_stable_version = getLatestStableTag g \<rparr>))"
    using a by (intro run_release_checks) auto
  show "(ts = [] \<longrightarrow> run cfg g = (Inl NoTagsAtHEAD, g))
   \<and> (ts \<noteq> [] \<and> filter is_candidate_tag ts = [] \<longrightarrow>
        run cfg g = (Inl NoReleaseCandidateAtHEAD, g))
   \<and> (length (filter is_candidate_tag ts) > 1 \<longrightarrow>
        run cfg g = (Inl (MultipleReleaseCandidatesAtHEAD (join '', '' ts)), g))
   \<and> (length (filter is_candidate_tag ts) = 1 \<and> filter is_stable_tag ts \<noteq> [] \<longrightarrow>
        run cfg g = (Inl (ReleaseTagsAtHEAD (join '', '' ts)), g))"
    unfolding run checks by auto
qed

lemma test_inputs_release_branch:
  "isReleaseBranch ''release-1.1.x'' (releaseBranchRegex (test_inputs act))"
proof -
  have "match ''release-1.1.x'' release_branch_rx \<noteq> None" by code_simp
  then show ?thesis by (simp add: isReleaseBranch_def test_inputs_def)
qed

lemma release_line_current: "getCurrentBranch (release_line names) = ''release-1.1.x''"
  by (simp add: getCurrentBranch_def branch_current_def release_line_def)

theorem release_head_checks_witness:
  "fst (run (test_inputs ''release'') (release_line [])) = Inl NoTagsAtHEAD
   \<and> fst (run (test_inputs ''release'') (release_line [''some-tag''])) = Inl NoReleaseCandidateAtHEAD
   \<and> fst (run (test_inputs ''release'') (release_line [''v1.1.0-rc.2'', ''v1.1.0-rc.3'']))
       = Inl (MultipleReleaseCandidatesAtHEAD ''v1.1.0-rc.2, v1.1.0-rc.3'')
   \<and> fst (run (test_inputs ''release'') (release_line [''v1.1.0-rc.2'', ''v1.1.0'']))
       = Inl (ReleaseTagsAtHEAD ''v1.1.0, v1.1.0-rc.2'')"
proof -
  let ?cfg = "test_inputs ''release''"
  have act: "action ?cfg = ''release''" by (simp add: test_inputs_def)
  have pre: "action ?cfg = ''release''
     \<and> isReleaseBranch (getCurrentBranch (release_line names)) (releaseBranchRegex ?cfg)
     \<and> getTagsAtHEAD (release_line names) = Inr ts"
    if "getTagsAtHEAD (release_line names) = Inr ts" for names ts
    using that act test_inputs_release_branch by (simp add: release_line_current)
  have t0: "getTagsAtHEAD (release_line []) = Inr []" by code_simp
  have t1: "getTagsAtHEAD (release_line [''some-tag'']) = Inr [''some-tag'']" by code_simp
  have t2: "getTagsAtHEAD (release_line [''v1.1.0-rc.2'', ''v1.1.0-rc.3''])
              = Inr [''v1.1.0-rc.2'', ''v1.1.0-rc.3'']" by code_simp
  have t3: "getTagsAtHEAD (release_line [''v1.1.0-rc.2'', ''v1.1.0''])
              = Inr [''v1.1.0'', ''v1.1.0-rc.2'']" by code_simp
  have c1: "filter is_candidate_tag [''some-tag''] = []" by code_simp
  have c2: "length (filter is_candidate_tag [''v1.1.0-rc.2'', ''v1.1.0-rc.3'']) > 1" by code_simp
  have c3: "length (filter is_candidate_tag [''v1.1.0'', ''v1.1.0-rc.2'']) = 1
            \<and> filter is_stable_tag [''v1.1.0'', ''v1.1.0-rc.2''] \<noteq> []" by code_simp
  have "run ?cfg (release_line []) = (Inl NoTagsAtHEAD, release_line [])"
    using release_head_checks [of ?cfg "release_line []" "[]"] pre [OF t0] by blast
  moreover have "run ?cfg (release_line [''some-tag''])
                 = (Inl NoReleaseCandidateAtHEAD, release_line [''some-tag''])"
    using release_head_checks [of ?cfg "release_line [''some-tag'']" "[''some-tag'']"]
      pre [OF t1] c1 by blast
  moreover have "run ?cfg (release_line [''v1.1.0-rc.2'', ''v1.1.0-rc.3''])
                 = (Inl (MultipleReleaseCandidatesAtHEAD
                           (join '', '' [''v1.1.0-rc.2'', ''v1.1.0-rc.3''])),
                    release_line [''v1.1.0-rc.2'', ''v1.1.0-rc.3''])"
    using release_head_checks [of ?cfg "release_line [''v1.1.0-rc.2'', ''v1.1.0-rc.3'']"
        "[''v1.1.0-rc.2'', ''v1.1.0-rc.3'']"] pre [OF t2] c2 by blast
  moreover have "run ?cfg (release_line [''v1.1.0-rc.2'', ''v1.1.0''])
                 = (Inl (ReleaseTagsAtHEAD (join '', '' [''v1.1.0'', ''v1.1.0-rc.2''])),
                    release_line [''v1.1.0-rc.2'', ''v1.1.0''])"
    using release_head_checks [of ?cfg "release_line [''v1.1.0-rc.2'', ''v1.1.0'']"
        "[''v1.1.0'', ''v1.1.0-rc.2'']"] pre [OF t3] c3 by blast
  ultimately show ?thesis by simp
qed

text \<open>
  A stable tag alone at HEAD: the run fails, but for want of a candidate, not as already
  released. A stable tag beside one candidate: the run fails as already released, and the
  message lists both tags, the candidate too.
\<close>

theorem release_head_checks_counterexample:
  "isReleaseBranch (getCurrentBranch (release_line [''v1.1.0'']))
     (releaseBranchRegex (test_inputs ''release''))
   \<and> getTagsAtHEAD (release_line [''v1.1.0'']) = Inr [''v1.1.0'']
   \<and> is_stable_tag ''v1.1.0''
   \<and> fst (run (test_inputs ''release'') (release_line [''v1.1.0''])) = Inl NoReleaseCandidateAtHEAD
   \<and> getTagsAtHEAD (release_line [''v1.1.0-rc.2'', ''v1.1.0'']) = Inr [''v1.1.0'', ''v1.1.0-rc.2'']
   \<and> filter is_stable_tag [''v1.1.0'', ''v1.1.0-rc.2''] = [''v1.1.0'']
   \<and> fst (run (test_inputs ''release'') (release_line [''v1.1.0-rc.2'', ''v1.1.0'']))
       = Inl (ReleaseTagsAtHEAD ''v1.1.0, v1.1.0-rc.2'')"
  by code_simp

subsection \<open>The release action: the new tag\<close>






text \<open>
  Why the branches must not bear the name of a tag: \<open>checkout\<close> of a name that is a branch goes
  to the branch, and the new tag to the commit of that branch.
\<close>

lemma release_branch_named_like_candidate:
  "tags (snd (run (test_inputs ''release'')
                ((release_line [''v1.1.0-rc.2''])
                   \<lparr> branches := branches (release_line [''v1.1.0-rc.2''])
                                  @ [(''v1.1.0-rc.2'', ''c1'')] \<rparr>)))
   = tags (release_line [''v1.1.0-rc.2'']) @ [(''v1.1.0'', ''c1'')]"
  by code_simp

subsection \<open>The release cut: placement\<close>

lemma cutReleaseFromTrunk_error:
  "cutReleaseFromTrunk g ref name t = (Inl e, g') \<Longrightarrow> \<not> BranchPlacementError e"
  by (auto simp: cutReleaseFromTrunk_def git_checkoutBranch_def git_tag_def
      split: if_splits option.splits)

lemma cutReleaseFromReleaseBranch_error:
  "cutReleaseFromReleaseBranch g ref t = (Inl e, g') \<Longrightarrow> \<not> BranchPlacementError e"
  by (auto simp: cutReleaseFromReleaseBranch_def git_tag_def split: if_splits option.splits)

lemma publish_error: "publish cfg g out = (Inl e, g') \<Longrightarrow> \<not> BranchPlacementError e"
  using publish_result [of cfg g out "Inl e" g'] by auto

lemma publish_fst_error: "fst (publish cfg g out) = Inl e \<Longrightarrow> e = PublishFailed"
  by (auto simp: publish_def gitSync_def split: if_splits)

lemma publish_fst_ok: "fst (publish cfg g out) = Inr out' \<Longrightarrow> out' = out"
  by (auto simp: publish_def gitSync_def split: if_splits)

lemma cut_finish_error:
  "fst (cut_finish cfg g cur pv v) = Inl e \<Longrightarrow> \<not> BranchPlacementError e"
  unfolding cut_finish_def Let_def
  by (auto split: if_splits prod.splits sum.splits
      dest: cutReleaseFromTrunk_error cutReleaseFromReleaseBranch_error publish_fst_error)

lemma cut_finish_outputs:
  "fst (cut_finish cfg g cur pv v) = Inr out \<Longrightarrow>
     next_version out = toString v \<and> previous_version out = pv"
  unfolding cut_finish_def Let_def
  by (auto split: if_splits prod.splits sum.splits dest: publish_fst_ok)

lemma run_release_cut_steps:
  assumes "action cfg = ''release-cut''"
    and "getCurrentBranch g = trunkBranchName cfg
         \<or> isReleaseBranch (getCurrentBranch g) (releaseBranchRegex cfg)"
  shows "run cfg g =
     (case cut_reference g (getCurrentBranch g) of
        Inl e \<Rightarrow> (Inl e, g)
      | Inr (latestTag, version, commitMessages, previousVersion) \<Rightarrow>
          (case cut_bump cfg (getCurrentBranch g) latestTag
                  (releaseTypeFromCommitMessages commitMessages) version of
             Inl e \<Rightarrow> (Inl e, g)
           | Inr bumped \<Rightarrow> cut_finish cfg g (getCurrentBranch g) previousVersion bumped))"
proof -
  have run: "run cfg g = run_release_cut cfg g (getCurrentBranch g)"
    using assms(1) by (simp add: run_def)
  show ?thesis
    unfolding run run_release_cut_def cut_finish_def Let_def
    using assms(2)
    by (auto split: sum.splits prod.splits)
qed

text \<open>
  C2. For every release-cut run that reaches the release type of its commit messages (the
  branch is the trunk or a release branch, and the reference point is found): with a major or
  a minor type the run fails with a placement error exactly when the current branch is not the
  trunk; with a patch type it fails so exactly when the current branch is the trunk; and each
  of these failures leaves the store as it was, with no tag and no branch made.
\<close>

theorem release_cut_placement:
  "action cfg = ''release-cut''
     \<and> (getCurrentBranch g = trunkBranchName cfg
         \<or> isReleaseBranch (getCurrentBranch g) (releaseBranchRegex cfg))
     \<and> cut_reference g (getCurrentBranch g) = Inr (latestTag, version, commitMessages, previousVersion)
   \<longrightarrow>
   (releaseTypeFromCommitMessages commitMessages = MAJOR \<or>
    releaseTypeFromCommitMessages commitMessages = MINOR \<longrightarrow>
      ((\<exists>e. fst (run cfg g) = Inl e \<and> BranchPlacementError e)
         \<longleftrightarrow> getCurrentBranch g \<noteq> trunkBranchName cfg))
   \<and> (releaseTypeFromCommitMessages commitMessages = PATCH \<longrightarrow>
      ((\<exists>e. fst (run cfg g) = Inl e \<and> BranchPlacementError e)
         \<longleftrightarrow> getCurrentBranch g = trunkBranchName cfg))
   \<and> (releaseTypeFromCommitMessages commitMessages = MAJOR
        \<and> getCurrentBranch g \<noteq> trunkBranchName cfg \<longrightarrow>
      run cfg g = (Inl (MajorOffTrunk (trunkBranchName cfg)), g))
   \<and> (releaseTypeFromCommitMessages commitMessages = MINOR
        \<and> getCurrentBranch g \<noteq> trunkBranchName cfg \<longrightarrow>
      run cfg g = (Inl (MinorOffTrunk (trunkBranchName cfg)), g))
   \<and> (releaseTypeFromCommitMessages commitMessages = PATCH
        \<and> getCurrentBranch g = trunkBranchName cfg \<longrightarrow>
      run cfg g = (Inl (PatchFromTrunk (trunkBranchName cfg)), g))"
proof
  let ?cur = "getCurrentBranch g"
  let ?rt = "releaseTypeFromCommitMessages commitMessages"
  assume a: "action cfg = ''release-cut''
     \<and> (?cur = trunkBranchName cfg \<or> isReleaseBranch ?cur (releaseBranchRegex cfg))
     \<and> cut_reference g ?cur = Inr (latestTag, version, commitMessages, previousVersion)"
  then have run: "run cfg g =
     (case cut_bump cfg ?cur latestTag ?rt version of
        Inl e \<Rightarrow> (Inl e, g)
      | Inr bumped \<Rightarrow> cut_finish cfg g ?cur previousVersion bumped)"
    using run_release_cut_steps [of cfg g] by simp
  have fin: "\<not> (\<exists>e. fst (cut_finish cfg g ?cur previousVersion b) = Inl e \<and> BranchPlacementError e)"
    for b using cut_finish_error by blast
  show "(?rt = MAJOR \<or> ?rt = MINOR \<longrightarrow>
      ((\<exists>e. fst (run cfg g) = Inl e \<and> BranchPlacementError e) \<longleftrightarrow> ?cur \<noteq> trunkBranchName cfg))
   \<and> (?rt = PATCH \<longrightarrow>
      ((\<exists>e. fst (run cfg g) = Inl e \<and> BranchPlacementError e) \<longleftrightarrow> ?cur = trunkBranchName cfg))
   \<and> (?rt = MAJOR \<and> ?cur \<noteq> trunkBranchName cfg \<longrightarrow>
      run cfg g = (Inl (MajorOffTrunk (trunkBranchName cfg)), g))
   \<and> (?rt = MINOR \<and> ?cur \<noteq> trunkBranchName cfg \<longrightarrow>
      run cfg g = (Inl (MinorOffTrunk (trunkBranchName cfg)), g))
   \<and> (?rt = PATCH \<and> ?cur = trunkBranchName cfg \<longrightarrow>
      run cfg g = (Inl (PatchFromTrunk (trunkBranchName cfg)), g))"
    unfolding run cut_bump_def using fin by (cases ?rt) auto
qed

lemma test_inputs_cut: "action (test_inputs ''release-cut'') = ''release-cut''
  \<and> trunkBranchName (test_inputs ''release-cut'') = ''main''"
  by (simp add: test_inputs_def)

theorem release_cut_placement_witness:
  "fst (run (test_inputs ''release-cut'')
          (trunk_line [(''v1.0.0'', ''c1'')] ''fix(my-scope): a fix''))
     = Inl (PatchFromTrunk ''main'')
   \<and> fst (run (test_inputs ''release-cut'')
          ((trunk_line [(''v1.0.0-rc.1'', ''c1'')] ''feat(my-scope): hey'')
             \<lparr> branches := [(''main'', ''c1''), (''release-1.0.x'', ''c2'')],
               HEAD := OnBranch ''release-1.0.x'' \<rparr>))
     = Inl (MinorOffTrunk ''main'')"
proof -
  let ?cfg = "test_inputs ''release-cut''"
  let ?g = "trunk_line [(''v1.0.0'', ''c1'')] ''fix(my-scope): a fix''"
  let ?h = "(trunk_line [(''v1.0.0-rc.1'', ''c1'')] ''feat(my-scope): hey'')
             \<lparr> branches := [(''main'', ''c1''), (''release-1.0.x'', ''c2'')],
               HEAD := OnBranch ''release-1.0.x'' \<rparr>"
  let ?v = "\<lparr> major = Num 1, minor = Num 0, patch = Num 0, prerelease = None \<rparr>"
  let ?w = "\<lparr> major = Num 1, minor = Num 0, patch = Num 0, prerelease = Some ''rc.1'' \<rparr>"
  have cur: "getCurrentBranch ?g = ''main''" "getCurrentBranch ?h = ''release-1.0.x''"
    by (simp_all add: getCurrentBranch_def branch_current_def trunk_line_def)
  have rb: "isReleaseBranch ''release-1.0.x'' (releaseBranchRegex ?cfg)"
  proof -
    have "match ''release-1.0.x'' release_branch_rx \<noteq> None" by code_simp
    then show ?thesis by (simp add: isReleaseBranch_def test_inputs_def)
  qed
  have ref: "cut_reference ?g ''main'' = Inr (''v1.0.0'', ?v, [''fix(my-scope): a fix''], ''v1.0.0'')"
    by code_simp
  have rt: "releaseTypeFromCommitMessages [''fix(my-scope): a fix''] = PATCH" by code_simp
  have ref': "cut_reference ?h ''release-1.0.x''
                = Inr (''v1.0.0-rc.1'', ?w, [''feat(my-scope): hey''], ''v1.0.0-rc.1'')"
    by code_simp
  have rt': "releaseTypeFromCommitMessages [''feat(my-scope): hey''] = MINOR"
    by code_simp
  have "run ?cfg ?g = (Inl (PatchFromTrunk (trunkBranchName ?cfg)), ?g)"
    using release_cut_placement [of ?cfg ?g "''v1.0.0''" ?v "[''fix(my-scope): a fix'']" "''v1.0.0''"]
      test_inputs_cut cur ref rt by simp
  moreover have "run ?cfg ?h = (Inl (MinorOffTrunk (trunkBranchName ?cfg)), ?h)"
    using release_cut_placement [of ?cfg ?h "''v1.0.0-rc.1''" ?w
        "[''feat(my-scope): hey'']" "''v1.0.0-rc.1''"]
      test_inputs_cut cur ref' rt' rb by simp
  ultimately show ?thesis using test_inputs_cut by simp
qed

subsection \<open>The release cut: the reference point\<close>

lemma zero_version:
  "new_SemanticVersion ''0.0.0''
     = Inr \<lparr> major = Num 0, minor = Num 0, patch = Num 0, prerelease = None \<rparr>"
  by code_simp

lemma zero_version_bumps:
  "toString (bumpMajor \<lparr> major = Num 0, minor = Num 0, patch = Num 0, prerelease = None \<rparr>)
     = ''v1.0.0-rc.1''
   \<and> toString (bumpMinor \<lparr> major = Num 0, minor = Num 0, patch = Num 0, prerelease = None \<rparr>)
     = ''v0.1.0-rc.1''
   \<and> toString (bumpPatch \<lparr> major = Num 0, minor = Num 0, patch = Num 0, prerelease = None \<rparr>)
     = ''v0.0.1-rc.1''"
  by code_simp

lemma cut_bump_Inr:
  "cut_bump cfg cur lt rt v = Inr b \<Longrightarrow> b = bumpMajor v \<or> b = bumpMinor v \<or> b = bumpPatch v"
  by (cases rt) (auto simp: cut_bump_def split: if_splits)

lemma getLatestTag_last:
  "getLatestTag g ref = Inr latestTag \<Longrightarrow>
     \<exists>reachableTags. getTags g ref = Inr reachableTags
        \<and> latestTag = (if reachableTags = [] then [] else last reachableTags)"
  by (cases "tags_merged g ref") (auto simp: getLatestTag_def getTags_def last_conv_nth)

text \<open>
  The reference point of the \<open>main.ts\<close> that the integration tests run. For every release-cut
  run on the trunk or on a release branch: the reference tag is the
  last of the tags reachable from the current branch, in the order of versions. When there is
  one and it is a version, the messages are collected from it to HEAD, and the run fails with
  the no-commits error naming the tag when there are none. When there is no tag, the version
  is \<open>v0.0.0\<close>, the messages are collected from the first commit of HEAD's history, the run
  fails with the no-commits error when there are none, and a run that succeeds reports an
  empty \<open>previous-version\<close> and a first candidate of \<open>v0.0.0\<close> bumped.
\<close>

theorem release_cut_reference_point:
  "action cfg = ''release-cut''
     \<and> (getCurrentBranch g = trunkBranchName cfg
         \<or> isReleaseBranch (getCurrentBranch g) (releaseBranchRegex cfg)) \<longrightarrow>
   (\<forall>latestTag. getLatestTag g (getCurrentBranch g) = Inr latestTag \<longrightarrow>
      (\<exists>reachableTags. getTags g (getCurrentBranch g) = Inr reachableTags
         \<and> latestTag = (if reachableTags = [] then [] else last reachableTags)))
   \<and> (\<forall>latestTag version.
        getLatestTag g (getCurrentBranch g) = Inr latestTag \<and> latestTag \<noteq> []
        \<and> new_SemanticVersion latestTag = Inr version \<longrightarrow>
        (getCommitMessages g latestTag ''HEAD'' = Inr [] \<longrightarrow>
           run cfg g = (Inl (NoCommitsSinceTag latestTag), g))
        \<and> (\<forall>messages. getCommitMessages g latestTag ''HEAD'' = Inr messages \<and> messages \<noteq> [] \<longrightarrow>
             cut_reference g (getCurrentBranch g)
               = Inr (latestTag, version, messages, toString version)))
   \<and> (\<forall>first.
        getLatestTag g (getCurrentBranch g) = Inr [] \<and> git_firstCommit g = Inr first \<longrightarrow>
        (getCommitMessages g first ''HEAD'' = Inr [] \<longrightarrow>
           run cfg g = (Inl NoCommitsInRepository, g))
        \<and> (\<forall>messages. getCommitMessages g first ''HEAD'' = Inr messages \<and> messages \<noteq> [] \<longrightarrow>
             cut_reference g (getCurrentBranch g)
               = Inr ([], \<lparr> major = Num 0, minor = Num 0, patch = Num 0, prerelease = None \<rparr>,
                      messages, [])))
   \<and> (\<forall>out.
        getLatestTag g (getCurrentBranch g) = Inr [] \<and> fst (run cfg g) = Inr out \<longrightarrow>
        previous_version out = []
        \<and> next_version out \<in> {''v1.0.0-rc.1'', ''v0.1.0-rc.1'', ''v0.0.1-rc.1''})"
proof
  let ?cur = "getCurrentBranch g"
  let ?zero = "\<lparr> major = Num 0, minor = Num 0, patch = Num 0, prerelease = None \<rparr>"
  assume a: "action cfg = ''release-cut''
     \<and> (?cur = trunkBranchName cfg \<or> isReleaseBranch ?cur (releaseBranchRegex cfg))"
  then have run: "run cfg g =
     (case cut_reference g ?cur of
        Inl e \<Rightarrow> (Inl e, g)
      | Inr (latestTag, version, commitMessages, previousVersion) \<Rightarrow>
          (case cut_bump cfg ?cur latestTag
                  (releaseTypeFromCommitMessages commitMessages) version of
             Inl e \<Rightarrow> (Inl e, g)
           | Inr bumped \<Rightarrow> cut_finish cfg g ?cur previousVersion bumped))"
    using run_release_cut_steps [of cfg g] by simp
  have p1: "\<forall>latestTag. getLatestTag g ?cur = Inr latestTag \<longrightarrow>
      (\<exists>reachableTags. getTags g ?cur = Inr reachableTags
         \<and> latestTag = (if reachableTags = [] then [] else last reachableTags))"
    using getLatestTag_last by blast
  have p2: "\<forall>latestTag version.
        getLatestTag g ?cur = Inr latestTag \<and> latestTag \<noteq> []
        \<and> new_SemanticVersion latestTag = Inr version \<longrightarrow>
        (getCommitMessages g latestTag ''HEAD'' = Inr [] \<longrightarrow>
           run cfg g = (Inl (NoCommitsSinceTag latestTag), g))
        \<and> (\<forall>messages. getCommitMessages g latestTag ''HEAD'' = Inr messages \<and> messages \<noteq> [] \<longrightarrow>
             cut_reference g ?cur = Inr (latestTag, version, messages, toString version))"
    unfolding run by (auto simp: cut_reference_def)
  have p3: "\<forall>first.
        getLatestTag g ?cur = Inr [] \<and> git_firstCommit g = Inr first \<longrightarrow>
        (getCommitMessages g first ''HEAD'' = Inr [] \<longrightarrow>
           run cfg g = (Inl NoCommitsInRepository, g))
        \<and> (\<forall>messages. getCommitMessages g first ''HEAD'' = Inr messages \<and> messages \<noteq> [] \<longrightarrow>
             cut_reference g ?cur = Inr ([], ?zero, messages, []))"
    unfolding run by (auto simp: cut_reference_def zero_version)
  have p4: "\<forall>out.
        getLatestTag g ?cur = Inr [] \<and> fst (run cfg g) = Inr out \<longrightarrow>
        previous_version out = []
        \<and> next_version out \<in> {''v1.0.0-rc.1'', ''v0.1.0-rc.1'', ''v0.0.1-rc.1''}"
  proof (intro allI impI)
    fix out
    assume b: "getLatestTag g ?cur = Inr [] \<and> fst (run cfg g) = Inr out"
    then obtain lt v msgs pv where ref: "cut_reference g ?cur = Inr (lt, v, msgs, pv)"
      unfolding run by (cases "cut_reference g ?cur") auto
    have shape: "lt = [] \<and> v = ?zero \<and> pv = []"
      using ref b by (auto simp: cut_reference_def zero_version split: sum.splits if_splits)
    obtain bumped where bump: "cut_bump cfg ?cur lt (releaseTypeFromCommitMessages msgs) v = Inr bumped"
      using b ref unfolding run
      by (cases "cut_bump cfg ?cur lt (releaseTypeFromCommitMessages msgs) v") auto
    have "fst (cut_finish cfg g ?cur pv bumped) = Inr out"
      using b ref bump unfolding run by simp
    then have "next_version out = toString bumped" "previous_version out = pv"
      using cut_finish_outputs by blast+
    then show "previous_version out = []
        \<and> next_version out \<in> {''v1.0.0-rc.1'', ''v0.1.0-rc.1'', ''v0.0.1-rc.1''}"
      using shape cut_bump_Inr [OF bump] zero_version_bumps by auto
  qed
  show "(\<forall>latestTag. getLatestTag g ?cur = Inr latestTag \<longrightarrow>
      (\<exists>reachableTags. getTags g ?cur = Inr reachableTags
         \<and> latestTag = (if reachableTags = [] then [] else last reachableTags)))
   \<and> (\<forall>latestTag version.
        getLatestTag g ?cur = Inr latestTag \<and> latestTag \<noteq> []
        \<and> new_SemanticVersion latestTag = Inr version \<longrightarrow>
        (getCommitMessages g latestTag ''HEAD'' = Inr [] \<longrightarrow>
           run cfg g = (Inl (NoCommitsSinceTag latestTag), g))
        \<and> (\<forall>messages. getCommitMessages g latestTag ''HEAD'' = Inr messages \<and> messages \<noteq> [] \<longrightarrow>
             cut_reference g ?cur = Inr (latestTag, version, messages, toString version)))
   \<and> (\<forall>first.
        getLatestTag g ?cur = Inr [] \<and> git_firstCommit g = Inr first \<longrightarrow>
        (getCommitMessages g first ''HEAD'' = Inr [] \<longrightarrow>
           run cfg g = (Inl NoCommitsInRepository, g))
        \<and> (\<forall>messages. getCommitMessages g first ''HEAD'' = Inr messages \<and> messages \<noteq> [] \<longrightarrow>
             cut_reference g ?cur = Inr ([], ?zero, messages, [])))
   \<and> (\<forall>out.
        getLatestTag g ?cur = Inr [] \<and> fst (run cfg g) = Inr out \<longrightarrow>
        previous_version out = []
        \<and> next_version out \<in> {''v1.0.0-rc.1'', ''v0.1.0-rc.1'', ''v0.0.1-rc.1''})"
    using p1 p2 p3 p4 by (intro conjI)
qed

theorem release_cut_reference_point_witness:
  "fst (run (test_inputs ''release-cut'') (trunk_line [(''v1.0.0'', ''c2'')] ''fix: a fix''))
     = Inl (NoCommitsSinceTag ''v1.0.0'')
   \<and> fst (run (test_inputs ''release-cut'')
            ((trunk_line [] ''Initial commit'')
               \<lparr> commits := [\<lparr> hash = ''c1'', parents = [], body = ''Initial commit'' \<rparr>],
                 branches := [(''main'', ''c1'')] \<rparr>))
     = Inl NoCommitsInRepository
   \<and> cut_reference (trunk_line [] ''feat(my-scope): hello'') ''main''
     = Inr ([], \<lparr> major = Num 0, minor = Num 0, patch = Num 0, prerelease = None \<rparr>,
            [''feat(my-scope): hello''], [])
   \<and> fst (run (test_inputs ''release-cut'') (trunk_line [] ''feat(my-scope): hello''))
     = Inr \<lparr> next_version = ''v0.1.0-rc.1'', previous_version = [],
             previous_stable_version = [] \<rparr>"
proof -
  let ?cfg = "test_inputs ''release-cut''"
  let ?g1 = "trunk_line [(''v1.0.0'', ''c2'')] ''fix: a fix''"
  let ?g2 = "(trunk_line [] ''Initial commit'')
               \<lparr> commits := [\<lparr> hash = ''c1'', parents = [], body = ''Initial commit'' \<rparr>],
                 branches := [(''main'', ''c1'')] \<rparr>"
  let ?g3 = "trunk_line [] ''feat(my-scope): hello''"
  let ?v = "\<lparr> major = Num 1, minor = Num 0, patch = Num 0, prerelease = None \<rparr>"
  have cur: "getCurrentBranch ?g1 = ''main''" "getCurrentBranch ?g2 = ''main''"
    "getCurrentBranch ?g3 = ''main''"
    by (simp_all add: getCurrentBranch_def branch_current_def trunk_line_def)
  have pre: "action ?cfg = ''release-cut''
     \<and> (getCurrentBranch g = trunkBranchName ?cfg
         \<or> isReleaseBranch (getCurrentBranch g) (releaseBranchRegex ?cfg))"
    if "getCurrentBranch g = ''main''" for g
    using that test_inputs_cut by simp
  have l1: "getLatestTag ?g1 ''main'' = Inr ''v1.0.0''" by code_simp
  have v1: "new_SemanticVersion ''v1.0.0'' = Inr ?v" by code_simp
  have m1: "getCommitMessages ?g1 ''v1.0.0'' ''HEAD'' = Inr []" by code_simp
  have l2: "getLatestTag ?g2 ''main'' = Inr []" by code_simp
  have f2: "git_firstCommit ?g2 = Inr ''c1''" by code_simp
  have m2: "getCommitMessages ?g2 ''c1'' ''HEAD'' = Inr []" by code_simp
  have l3: "getLatestTag ?g3 ''main'' = Inr []" by code_simp
  have f3: "git_firstCommit ?g3 = Inr ''c1''" by code_simp
  have m3: "getCommitMessages ?g3 ''c1'' ''HEAD'' = Inr [''feat(my-scope): hello'']" by code_simp
  have r3: "fst (run ?cfg ?g3)
     = Inr \<lparr> next_version = ''v0.1.0-rc.1'', previous_version = [],
             previous_stable_version = [] \<rparr>" by code_simp
  have "run ?cfg ?g1 = (Inl (NoCommitsSinceTag ''v1.0.0''), ?g1)"
    using release_cut_reference_point [of ?cfg ?g1] pre [OF cur(1)] l1 v1 m1 cur(1)
    by (simp add: test_inputs_cut)
  moreover have "run ?cfg ?g2 = (Inl NoCommitsInRepository, ?g2)"
    using release_cut_reference_point [of ?cfg ?g2] pre [OF cur(2)] l2 f2 m2 cur(2)
    by (simp add: test_inputs_cut)
  moreover have "cut_reference ?g3 ''main''
     = Inr ([], \<lparr> major = Num 0, minor = Num 0, patch = Num 0, prerelease = None \<rparr>,
            [''feat(my-scope): hello''], [])"
    using release_cut_reference_point [of ?cfg ?g3] pre [OF cur(3)] l3 f3 m3 cur(3)
    by (simp add: test_inputs_cut)
  ultimately show ?thesis using r3 by simp
qed

subsection \<open>The latest stable tag\<close>

text \<open>
  C1. \<open>getLatestStableTag\<close> lists the tags of the whole store: on the store of the repository's
  own test the stable tags reachable from \<open>release-1.0.x\<close> are \<open>v1.0.0\<close> alone, and the function
  returns \<open>v1.1.0\<close>, a tag of the unrelated branch \<open>release-1.1.x\<close>; a release made on
  \<open>release-1.0.x\<close> reports it as \<open>previous-stable-version\<close>.
\<close>

theorem getLatestStableTag_unscoped:
  "getTags two_release_lines ''release-1.0.x''
     = Inr [''v1.0.0'', ''v1.0.0-rc.1'', ''v1.0.0-rc.2'', ''v1.0.1-rc.1'']
   \<and> filter is_stable_tag [''v1.0.0'', ''v1.0.0-rc.1'', ''v1.0.0-rc.2'', ''v1.0.1-rc.1'']
     = [''v1.0.0'']
   \<and> getLatestStableTag two_release_lines = ''v1.1.0''
   \<and> fst (run (test_inputs ''release'') (two_release_lines \<lparr> HEAD := OnBranch ''release-1.0.x'' \<rparr>))
     = Inr \<lparr> next_version = ''v1.0.1'', previous_version = ''v1.0.1-rc.1'',
             previous_stable_version = ''v1.1.0'' \<rparr>"
  by code_simp

subsection \<open>The reference tag of the earlier main.ts\<close>

text \<open>
  C5. A release-cut run takes as its reference the latest tag reachable from the current
  branch. The earlier \<open>main.ts\<close> asks for the latest tag reachable from the trunk instead. On
  the store \<open>trunk_gone_on\<close>, where the release branch \<open>release-1.0.x\<close> is checked out with one
  fix after the tag \<open>v1.0.0-rc.1\<close> and the trunk has gone on to the tag \<open>v1.1.0-rc.1\<close>, the latest
  tag reachable from the current branch is \<open>v1.0.0-rc.1\<close>, yet the run takes \<open>v1.1.0-rc.1\<close>: it
  reports that as the previous version and binds the new tag \<open>v1.1.0-rc.2\<close> to the head of the
  release branch. The later \<open>main.ts\<close> takes \<open>v1.0.0-rc.1\<close> and creates \<open>v1.0.0-rc.2\<close>.
\<close>

theorem release_cut_reference_trunk:
  "getCurrentBranch trunk_gone_on = ''release-1.0.x''
   \<and> getLatestTag trunk_gone_on ''release-1.0.x'' = Inr ''v1.0.0-rc.1''
   \<and> getLatestTag trunk_gone_on ''main'' = Inr ''v1.1.0-rc.1''
   \<and> fst (run' (test_inputs ''release-cut'') trunk_gone_on)
       = Inr \<lparr> next_version = ''v1.1.0-rc.2'', previous_version = ''v1.1.0-rc.1'',
               previous_stable_version = [] \<rparr>
   \<and> tags (snd (run' (test_inputs ''release-cut'') trunk_gone_on))
       = tags trunk_gone_on @ [(''v1.1.0-rc.2'', ''c2'')]
   \<and> fst (run (test_inputs ''release-cut'') trunk_gone_on)
       = Inr \<lparr> next_version = ''v1.0.0-rc.2'', previous_version = ''v1.0.0-rc.1'',
               previous_stable_version = [] \<rparr>"
  by code_simp

end
